theory Spec2Isabelle
  imports Main
begin

section \<open>The render adapter of src/pure.js\<close>

text \<open>
  The module keeps two module-level variables (\<open>mountedContainers\<close>, a Set, and
  \<open>mountedRootEntries\<close>, an Array), mutates the DOM through \<open>document.createElement\<close>,
  \<open>appendChild\<close> and \<open>removeChild\<close>, and calls into the rendering runtime (React). The
  model threads one explicit state through every function. Each exported function is
  \<open>async\<close>; the model runs a call to completion before the next one starts, so a result
  \<open>(Inr v, s')\<close> is a promise resolved with \<open>v\<close> and \<open>(Inl e, s')\<close> one rejected with
  \<open>e\<close>, in both cases with the side effects \<open>s'\<close> that happened on the way.
\<close>

subsection \<open>DOM nodes, UI descriptions, root handles\<close>

type_synonym node = nat

definition documentElement :: node where
  "documentElement = 0"

definition body :: node where
  "body = 1"

text \<open>
  A UI description is opaque to the adapter, except for the elements it builds itself with
  \<open>React.createElement(type, props, child)\<close>: the strict-mode marker, the caller's wrapper
  component, and the \<open>TestComponent\<close> of \<open>renderHook\<close> (a closure over the hook callback,
  named here by the callback).
\<close>

datatype component = StrictMode | UserComponent nat | TestComponent nat

datatype props = Null | RenderCallbackProps "nat option"

datatype element = Ui nat | CreateElement component props "element list"

text \<open>
  A root handle is the object literal returned by \<open>createConcurrentRoot\<close> or
  \<open>createLegacyRoot\<close>. Its methods close over the container and, for a concurrent root,
  over the \<open>hydrate\<close> flag; \<open>rootId\<close> is the object's identity.
\<close>

datatype root_impl = LegacyRoot | ConcurrentRoot bool

datatype root = Root (rootId: nat) (rootContainer: node) (rootImpl: root_impl)

text \<open>The calls the adapter makes into the rendering runtime.\<close>

datatype rt_call =
    HydrateRoot node element
  | CreateRoot node
  | RootRender nat element
  | RootUnmount nat
  | LegacyHydrate element node
  | LegacyRender element node
  | UnmountComponentAtNode node

datatype error =
    LegacyRootUnsupported string
  | NonHydrateableRoot string
  | TypeError
  | RuntimeError nat

definition legacyRootMessage :: string where
  "legacyRootMessage =
     ''`legacyRoot: true` is not supported in this version of React. '' @
     ''If your app runs React 19 or later, you should remove this flag. '' @
     ''If your app runs React 18 or earlier, visit https://react.dev/blog/2022/03/08/react-18-upgrade-guide for upgrade instructions.''"

definition nonHydrateableMessage :: string where
  "nonHydrateableMessage =
     ''Attempted to hydrate a non-hydrateable root. This is a bug in `@testing-library/react`.''"

subsection \<open>State and environment\<close>

record state =
  mountedContainers :: "node set"
  mountedRootEntries :: "(node \<times> root) list"
  createdRoots :: "root list"
  parentNode :: "node \<rightharpoonup> node"
  nextNode :: node
  calls :: "rt_call list"
  reactStrictMode :: bool

text \<open>
  \<open>createdRoots\<close> records every root handle that was constructed, in order; \<open>calls\<close>
  records every call into the runtime. \<open>reactStrictMode\<close> is what
  \<open>getConfig().reactStrictMode\<close> reads.

  The runtime is a parameter: \<open>hasLegacyRender\<close> says whether
  \<open>typeof ReactDOM.render === 'function'\<close>, and \<open>outcome\<close> decides, from the calls made
  so far and the call at hand, whether the call throws (and what).
\<close>

record env =
  hasLegacyRender :: bool
  outcome :: "rt_call list \<Rightarrow> rt_call \<Rightarrow> nat option"

definition init :: state where
  "init = \<lparr> mountedContainers = {}, mountedRootEntries = [], createdRoots = [],
            parentNode = [body \<mapsto> documentElement], nextNode = 2, calls = [],
            reactStrictMode = False \<rparr>"

subsection \<open>DOM operations\<close>

text \<open>
  Of the DOM the adapter reads and writes one thing, the parent of a node. A node is
  known by a number; \<open>document.createElement\<close> hands out the next one. \<open>appendChild\<close>
  sets the parent of the child (moving it if it had one), \<open>removeChild\<close> clears it.
\<close>

definition createElement :: "state \<Rightarrow> node \<times> state" where
  "createElement s = (nextNode s, s\<lparr>nextNode := Suc (nextNode s)\<rparr>)"

definition appendChild :: "node \<Rightarrow> node \<Rightarrow> state \<Rightarrow> state" where
  "appendChild parent child s = s\<lparr>parentNode := (parentNode s)(child \<mapsto> parent)\<rparr>"

definition removeChild :: "node \<Rightarrow> node \<Rightarrow> state \<Rightarrow> state" where
  "removeChild parent child s = s\<lparr>parentNode := (parentNode s)(child := None)\<rparr>"

subsection \<open>Calls into the runtime\<close>

text \<open>
  A call into the runtime, inside \<open>act\<close> where the source wraps it: the call is
  recorded, and it returns or throws as the environment says. What the runtime paints
  inside a container is not followed; it is taken not to re-parent the containers
  themselves.
\<close>

definition invoke :: "env \<Rightarrow> rt_call \<Rightarrow> state \<Rightarrow> (error + unit) \<times> state" where
  "invoke rt c s =
     (case outcome rt (calls s) c of
        None \<Rightarrow> (Inr (), s\<lparr>calls := calls s @ [c]\<rparr>)
      | Some e \<Rightarrow> (Inl (RuntimeError e), s\<lparr>calls := calls s @ [c]\<rparr>))"

subsection \<open>Decoration\<close>

definition strictModeIfNeeded :: "state \<Rightarrow> element \<Rightarrow> element" where
  "strictModeIfNeeded s innerElement =
     (if reactStrictMode s then CreateElement StrictMode Null [innerElement]
      else innerElement)"

definition wrapUiIfNeeded :: "element \<Rightarrow> nat option \<Rightarrow> element" where
  "wrapUiIfNeeded innerElement wrapperComponent =
     (case wrapperComponent of
        Some w \<Rightarrow> CreateElement (UserComponent w) Null [innerElement]
      | None \<Rightarrow> innerElement)"

subsection \<open>Root factories\<close>

definition newRoot :: "node \<Rightarrow> root_impl \<Rightarrow> state \<Rightarrow> (error + root) \<times> state" where
  "newRoot container impl s =
     (let r = Root (length (createdRoots s)) container impl
      in (Inr r, s\<lparr>createdRoots := createdRoots s @ [r]\<rparr>))"

definition createConcurrentRoot ::
  "env \<Rightarrow> node \<Rightarrow> bool \<Rightarrow> element \<Rightarrow> nat option \<Rightarrow> state \<Rightarrow> (error + root) \<times> state" where
  "createConcurrentRoot rt container hydrate ui wrapper s =
     (case (if hydrate
            then invoke rt (HydrateRoot container
                   (strictModeIfNeeded s (wrapUiIfNeeded ui wrapper))) s
            else invoke rt (CreateRoot container) s) of
        (Inl e, s1) \<Rightarrow> (Inl e, s1)
      | (Inr _, s1) \<Rightarrow> newRoot container (ConcurrentRoot hydrate) s1)"

definition createLegacyRoot :: "node \<Rightarrow> state \<Rightarrow> (error + root) \<times> state" where
  "createLegacyRoot container s = newRoot container LegacyRoot s"

subsection \<open>Methods of a root handle\<close>

definition root_hydrate :: "env \<Rightarrow> root \<Rightarrow> element \<Rightarrow> state \<Rightarrow> (error + unit) \<times> state" where
  "root_hydrate rt r el s =
     (case rootImpl r of
        ConcurrentRoot hydrate \<Rightarrow>
          (if \<not> hydrate then (Inl (NonHydrateableRoot nonHydrateableMessage), s)
           else (Inr (), s))
      | LegacyRoot \<Rightarrow> invoke rt (LegacyHydrate el (rootContainer r)) s)"

definition root_render :: "env \<Rightarrow> root \<Rightarrow> element \<Rightarrow> state \<Rightarrow> (error + unit) \<times> state" where
  "root_render rt r el s =
     (case rootImpl r of
        ConcurrentRoot hydrate \<Rightarrow> invoke rt (RootRender (rootId r) el) s
      | LegacyRoot \<Rightarrow> invoke rt (LegacyRender el (rootContainer r)) s)"

definition root_unmount :: "env \<Rightarrow> root \<Rightarrow> state \<Rightarrow> (error + unit) \<times> state" where
  "root_unmount rt r s =
     (case rootImpl r of
        ConcurrentRoot hydrate \<Rightarrow> invoke rt (RootUnmount (rootId r)) s
      | LegacyRoot \<Rightarrow> invoke rt (UnmountComponentAtNode (rootContainer r)) s)"

subsection \<open>renderRoot and the result bundle\<close>

text \<open>
  Of the bundle, the record keeps what the closures \<open>rerender\<close> and \<open>unmount\<close> capture
  (container, base element, root, wrapper) and the \<open>queries\<close> option that the query helpers
  are bound with. \<open>debug\<close>, \<open>asFragment\<close> and the query helpers themselves only read
  the DOM and are left out.
\<close>

record render_result =
  rr_container :: node
  rr_baseElement :: node
  rr_root :: root
  rr_wrapper :: "nat option"
  rr_queries :: "nat option"

text \<open>
  \<open>root\<close> is \<open>None\<close> when the caller's variable is still \<open>undefined\<close>; reading
  \<open>root.hydrate\<close> or \<open>root.render\<close> then throws a TypeError.
\<close>

definition renderRoot ::
  "env \<Rightarrow> element \<Rightarrow> node \<Rightarrow> node \<Rightarrow> bool \<Rightarrow> nat option \<Rightarrow> root option \<Rightarrow> nat option \<Rightarrow>
     state \<Rightarrow> (error + render_result) \<times> state" where
  "renderRoot rt ui baseElement container hydrate queries root wrapper s =
     (case root of
        None \<Rightarrow> (Inl TypeError, s)
      | Some r \<Rightarrow>
          (case (if hydrate
                 then root_hydrate rt r (strictModeIfNeeded s (wrapUiIfNeeded ui wrapper)) s
                 else root_render rt r (strictModeIfNeeded s (wrapUiIfNeeded ui wrapper)) s) of
             (Inl e, s1) \<Rightarrow> (Inl e, s1)
           | (Inr _, s1) \<Rightarrow>
               (Inr \<lparr> rr_container = container, rr_baseElement = baseElement, rr_root = r,
                      rr_wrapper = wrapper, rr_queries = queries \<rparr>, s1)))"

text \<open>
  The bundle of \<open>renderHook\<close>: its \<open>rerender\<close> and \<open>unmount\<close> close over the callback
  and over the bundle of the underlying \<open>render\<close>. The cell \<open>result\<close> is written by the
  runtime when it commits \<open>TestComponent\<close>; the model does not follow its content.
\<close>

record hook_result =
  hr_callback :: nat
  hr_base :: render_result

datatype js_value = Undefined | RenderResult render_result | HookResult hook_result

definition rerender ::
  "env \<Rightarrow> render_result \<Rightarrow> element \<Rightarrow> state \<Rightarrow> (error + js_value) \<times> state" where
  "rerender rt b rerenderUi s =
     (case renderRoot rt rerenderUi (rr_baseElement b) (rr_container b) False None
             (Some (rr_root b)) (rr_wrapper b) s of
        (Inl e, s1) \<Rightarrow> (Inl e, s1)
      | (Inr _, s1) \<Rightarrow> (Inr Undefined, s1))"

definition unmount :: "env \<Rightarrow> render_result \<Rightarrow> state \<Rightarrow> (error + unit) \<times> state" where
  "unmount rt b s = root_unmount rt (rr_root b) s"

subsection \<open>render\<close>

record render_options =
  opt_container :: "node option"
  opt_baseElement :: "node option"
  opt_legacyRoot :: bool
  opt_queries :: "nat option"
  opt_hydrate :: bool
  opt_wrapper :: "nat option"

text \<open>
  An option that the caller omits is \<open>None\<close>. The check at the head of \<open>render\<close>
  builds the error, calls \<open>Error.captureStackTrace\<close> (taken to exist, as on V8) and
  throws.
\<close>

text \<open>
  The \<open>forEach\<close> of the reuse branch: every entry whose container is the one looked for
  overwrites \<open>root\<close>, so the last one wins; with none, \<open>root\<close> stays \<open>undefined\<close>.
\<close>

fun findRoot :: "(node \<times> root) list \<Rightarrow> node \<Rightarrow> root option \<Rightarrow> root option" where
  "findRoot [] container root = root"
| "findRoot (rootEntry # es) container root =
     findRoot es container (if fst rootEntry = container then Some (snd rootEntry) else root)"

definition render ::
  "env \<Rightarrow> element \<Rightarrow> render_options \<Rightarrow> state \<Rightarrow> (error + render_result) \<times> state" where
  "render rt ui opts s =
     (if opt_legacyRoot opts \<and> \<not> hasLegacyRender rt
      then (Inl (LegacyRootUnsupported legacyRootMessage), s)
      else
        let baseElement0 = (case opt_baseElement opts of
                              None \<Rightarrow> opt_container opts
                            | Some b \<Rightarrow> Some b);
            baseElement = (case baseElement0 of None \<Rightarrow> body | Some b \<Rightarrow> b);
            (container, s1) = (case opt_container opts of
                                 None \<Rightarrow> (let (el, s0) = createElement s
                                          in (el, appendChild baseElement el s0))
                               | Some c \<Rightarrow> (c, s))
        in if container \<notin> mountedContainers s1
           then (case (if opt_legacyRoot opts then createLegacyRoot container s1
                       else createConcurrentRoot rt container (opt_hydrate opts) ui
                              (opt_wrapper opts) s1) of
                   (Inl e, s2) \<Rightarrow> (Inl e, s2)
                 | (Inr root, s2) \<Rightarrow>
                     renderRoot rt ui baseElement container (opt_hydrate opts)
                       (opt_queries opts) (Some root) (opt_wrapper opts)
                       (s2\<lparr>mountedRootEntries := mountedRootEntries s2 @ [(container, root)],
                           mountedContainers := insert container (mountedContainers s2)\<rparr>))
           else renderRoot rt ui baseElement container (opt_hydrate opts) (opt_queries opts)
                  (findRoot (mountedRootEntries s1) container None) (opt_wrapper opts) s1)"

subsection \<open>cleanup\<close>

text \<open>
  \<open>cleanup\<close> maps an async function over the entries and awaits \<open>Promise.all\<close> of the
  results. Every entry's function is started, whatever happens to the others: it unmounts
  the root and, when that did not throw, detaches the container if its parent is
  \<open>document.body\<close>. The two statements that empty the store run only when no entry's
  function has thrown. On failure the state returned is the one after all entries have run,
  and the error is that of the first failing entry.
\<close>

definition cleanupEntry :: "env \<Rightarrow> node \<times> root \<Rightarrow> state \<Rightarrow> (error + unit) \<times> state" where
  "cleanupEntry rt entry s =
     (case root_unmount rt (snd entry) s of
        (Inl e, s1) \<Rightarrow> (Inl e, s1)
      | (Inr _, s1) \<Rightarrow>
          (Inr (), if parentNode s1 (fst entry) = Some body
                   then removeChild body (fst entry) s1 else s1))"

fun cleanupEntries ::
  "env \<Rightarrow> (node \<times> root) list \<Rightarrow> state \<Rightarrow> (error + unit) list \<times> state" where
  "cleanupEntries rt [] s = ([], s)"
| "cleanupEntries rt (entry # es) s =
     (case cleanupEntry rt entry s of
        (out, s1) \<Rightarrow> (case cleanupEntries rt es s1 of (outs, s2) \<Rightarrow> (out # outs, s2)))"

fun firstError :: "(error + unit) list \<Rightarrow> error option" where
  "firstError [] = None"
| "firstError (Inl e # outs) = Some e"
| "firstError (Inr _ # outs) = firstError outs"

definition cleanup :: "env \<Rightarrow> state \<Rightarrow> (error + unit) \<times> state" where
  "cleanup rt s =
     (case cleanupEntries rt (mountedRootEntries s) s of
        (outs, s1) \<Rightarrow>
          (case firstError outs of
             Some e \<Rightarrow> (Inl e, s1)
           | None \<Rightarrow> (Inr (), s1\<lparr>mountedRootEntries := [], mountedContainers := {}\<rparr>)))"

subsection \<open>renderHook\<close>

record hook_options =
  initialProps :: "nat option"
  renderOptions :: render_options

definition renderHook ::
  "env \<Rightarrow> nat \<Rightarrow> hook_options \<Rightarrow> state \<Rightarrow> (error + hook_result) \<times> state" where
  "renderHook rt renderCallback options s =
     (if opt_legacyRoot (renderOptions options) \<and> \<not> hasLegacyRender rt
      then (Inl (LegacyRootUnsupported legacyRootMessage), s)
      else
        (case render rt
                (CreateElement (TestComponent renderCallback)
                   (RenderCallbackProps (initialProps options)) [])
                (renderOptions options) s of
           (Inl e, s1) \<Rightarrow> (Inl e, s1)
         | (Inr b, s1) \<Rightarrow> (Inr \<lparr> hr_callback = renderCallback, hr_base = b \<rparr>, s1)))"

definition hookRerender ::
  "env \<Rightarrow> hook_result \<Rightarrow> nat option \<Rightarrow> state \<Rightarrow> (error + js_value) \<times> state" where
  "hookRerender rt h rerenderCallbackProps s =
     rerender rt (hr_base h)
       (CreateElement (TestComponent (hr_callback h))
          (RenderCallbackProps rerenderCallbackProps) []) s"

subsection \<open>Sequences of calls to the public surface\<close>

text \<open>
  Modelled from the spec: the configuration setter \<open>configure\<close> is re-exported from
  \<open>./config\<close>, which is not among the sources; of what it sets, only \<open>reactStrictMode\<close>
  is read here.
\<close>

definition configure :: "bool \<Rightarrow> state \<Rightarrow> state" where
  "configure b s = s\<lparr>reactStrictMode := b\<rparr>"

text \<open>
  \<open>step\<close> is one call that the test awaits, and \<open>run\<close> a sequence of such calls, each
  awaited before the next (calls that overlap are the subject of the next subsection). A
  bundle passed to
  \<open>Rerender\<close>, \<open>HookRerender\<close> or \<open>Unmount\<close> may be any bundle, which covers the ones
  earlier calls returned. A call that throws does not stop the sequence: the test may
  catch the error and go on, and what was mutated stays mutated.
\<close>

datatype op =
    Render element render_options
  | RenderHook nat hook_options
  | Rerender render_result element
  | HookRerender hook_result "nat option"
  | Unmount render_result
  | Cleanup
  | Configure bool

fun step :: "env \<Rightarrow> op \<Rightarrow> state \<Rightarrow> (error + js_value) \<times> state" where
  "step rt (Render ui opts) s =
     (case render rt ui opts s of
        (Inl e, s1) \<Rightarrow> (Inl e, s1)
      | (Inr b, s1) \<Rightarrow> (Inr (RenderResult b), s1))"
| "step rt (RenderHook cb options) s =
     (case renderHook rt cb options s of
        (Inl e, s1) \<Rightarrow> (Inl e, s1)
      | (Inr h, s1) \<Rightarrow> (Inr (HookResult h), s1))"
| "step rt (Rerender b ui) s = rerender rt b ui s"
| "step rt (HookRerender h p) s = hookRerender rt h p s"
| "step rt (Unmount b) s =
     (case unmount rt b s of
        (Inl e, s1) \<Rightarrow> (Inl e, s1)
      | (Inr _, s1) \<Rightarrow> (Inr Undefined, s1))"
| "step rt Cleanup s =
     (case cleanup rt s of
        (Inl e, s1) \<Rightarrow> (Inl e, s1)
      | (Inr _, s1) \<Rightarrow> (Inr Undefined, s1))"
| "step rt (Configure b) s = (Inr Undefined, configure b s)"

fun run :: "env \<Rightarrow> op list \<Rightarrow> state \<Rightarrow> (error + js_value) list \<times> state" where
  "run rt [] s = ([], s)"
| "run rt (x # xs) s =
     (case step rt x s of
        (out, s1) \<Rightarrow> (case run rt xs s1 of (outs, s2) \<Rightarrow> (out # outs, s2)))"

subsection \<open>Calls that are not awaited\<close>

text \<open>
  Between the test \<open>mountedContainers.has(container)\<close> and the two statements that
  record the new root, \<open>render\<close> waits: \<open>root = await createRootImpl(...)\<close>. A \<open>render\<close>
  that the caller does not await runs up to there and gives control back; what is left of
  it runs later, after whatever else the caller has started in between. So \<open>render\<close> is
  cut at that \<open>await\<close>. \<open>renderStart\<close> is the part before it: the capability check, the
  resolution of \<open>baseElement\<close> and \<open>container\<close>, the test, and the call of the root
  factory; on the reuse branch no \<open>await\<close> comes before the mount, so the runtime call of
  \<open>renderRoot\<close> belongs to this part too. \<open>renderResume\<close> is the part after it: record
  the root, then \<open>renderRoot\<close>. The frame of a suspended \<open>render\<close> holds its local
  variables and the root handle the factory has produced. (For a hydrating concurrent
  root the handle object is built one tick after the call of \<open>hydrateRoot\<close>; the model
  builds it with the call, which changes nothing but the order of \<open>createdRoots\<close>.)
\<close>

record frame =
  f_ui :: element
  f_baseElement :: node
  f_container :: node
  f_hydrate :: bool
  f_queries :: "nat option"
  f_wrapper :: "nat option"
  f_root :: root

datatype progress = Done "error + render_result" | Suspended frame

definition renderStart ::
  "env \<Rightarrow> element \<Rightarrow> render_options \<Rightarrow> state \<Rightarrow> progress \<times> state" where
  "renderStart rt ui opts s =
     (if opt_legacyRoot opts \<and> \<not> hasLegacyRender rt
      then (Done (Inl (LegacyRootUnsupported legacyRootMessage)), s)
      else
        let baseElement0 = (case opt_baseElement opts of
                              None \<Rightarrow> opt_container opts
                            | Some b \<Rightarrow> Some b);
            baseElement = (case baseElement0 of None \<Rightarrow> body | Some b \<Rightarrow> b);
            (container, s1) = (case opt_container opts of
                                 None \<Rightarrow> (let (el, s0) = createElement s
                                          in (el, appendChild baseElement el s0))
                               | Some c \<Rightarrow> (c, s))
        in if container \<notin> mountedContainers s1
           then (case (if opt_legacyRoot opts then createLegacyRoot container s1
                       else createConcurrentRoot rt container (opt_hydrate opts) ui
                              (opt_wrapper opts) s1) of
                   (Inl e, s2) \<Rightarrow> (Done (Inl e), s2)
                 | (Inr root, s2) \<Rightarrow>
                     (Suspended \<lparr> f_ui = ui, f_baseElement = baseElement,
                                  f_container = container, f_hydrate = opt_hydrate opts,
                                  f_queries = opt_queries opts, f_wrapper = opt_wrapper opts,
                                  f_root = root \<rparr>, s2))
           else (case renderRoot rt ui baseElement container (opt_hydrate opts)
                        (opt_queries opts) (findRoot (mountedRootEntries s1) container None)
                        (opt_wrapper opts) s1 of
                   (out, s2) \<Rightarrow> (Done out, s2)))"

definition renderResume :: "env \<Rightarrow> frame \<Rightarrow> state \<Rightarrow> (error + render_result) \<times> state" where
  "renderResume rt f s =
     renderRoot rt (f_ui f) (f_baseElement f) (f_container f) (f_hydrate f) (f_queries f)
       (Some (f_root f)) (f_wrapper f)
       (s\<lparr>mountedRootEntries := mountedRootEntries s @ [(f_container f, f_root f)],
          mountedContainers := insert (f_container f) (mountedContainers s)\<rparr>)"

text \<open>
  A schedule is what a test makes happen, in order: a call that it awaits (\<open>Await\<close>), a
  \<open>render\<close> that it starts without awaiting (\<open>Issue\<close>), and the moment at which one of
  the suspended renders goes on (\<open>Continue\<close>, by position among those suspended). An
  awaited \<open>render\<close> is an \<open>Issue\<close> followed at once by its \<open>Continue\<close> (lemma
  \<open>render_start_resume\<close>). The other calls write the store only before their first
  \<open>await\<close> (or, for \<open>cleanup\<close>, clear it at the end), and are kept whole.
\<close>

record sched =
  st :: state
  inflight :: "frame list"

datatype event = Await op | Issue element render_options | Continue nat

datatype reply = Settled "error + js_value" | Pending | NoSuchFrame

definition settled :: "error + render_result \<Rightarrow> reply" where
  "settled out = (case out of Inl e \<Rightarrow> Settled (Inl e) | Inr b \<Rightarrow> Settled (Inr (RenderResult b)))"

fun fire :: "env \<Rightarrow> event \<Rightarrow> sched \<Rightarrow> reply \<times> sched" where
  "fire rt (Await x) sc =
     (case step rt x (st sc) of (out, s1) \<Rightarrow> (Settled out, sc\<lparr>st := s1\<rparr>))"
| "fire rt (Issue ui opts) sc =
     (case renderStart rt ui opts (st sc) of
        (Done out, s1) \<Rightarrow> (settled out, sc\<lparr>st := s1\<rparr>)
      | (Suspended f, s1) \<Rightarrow> (Pending, \<lparr> st = s1, inflight = inflight sc @ [f] \<rparr>))"
| "fire rt (Continue i) sc =
     (if i < length (inflight sc)
      then (case renderResume rt (inflight sc ! i) (st sc) of
              (out, s1) \<Rightarrow>
                (settled out,
                 \<lparr> st = s1, inflight = take i (inflight sc) @ drop (Suc i) (inflight sc) \<rparr>))
      else (NoSuchFrame, sc))"

fun exec :: "env \<Rightarrow> event list \<Rightarrow> sched \<Rightarrow> reply list \<times> sched" where
  "exec rt [] sc = ([], sc)"
| "exec rt (ev # evs) sc =
     (case fire rt ev sc of
        (r, sc1) \<Rightarrow> (case exec rt evs sc1 of (rs, sc2) \<Rightarrow> (r # rs, sc2)))"

definition start :: sched where
  "start = \<lparr> st = init, inflight = [] \<rparr>"

text \<open>
  The container a \<open>render\<close> is for, and the schedules in which no \<open>render\<close> is started
  for a container while another \<open>render\<close> for that container is suspended. A schedule of
  awaited calls is one of them, since nothing is ever suspended in it.
\<close>

definition renderTarget :: "render_options \<Rightarrow> state \<Rightarrow> node" where
  "renderTarget opts s = (case opt_container opts of Some c \<Rightarrow> c | None \<Rightarrow> nextNode s)"

fun eventTarget :: "event \<Rightarrow> state \<Rightarrow> node option" where
  "eventTarget (Await (Render ui opts)) s = Some (renderTarget opts s)"
| "eventTarget (Await (RenderHook cb options)) s = Some (renderTarget (renderOptions options) s)"
| "eventTarget (Issue ui opts) s = Some (renderTarget opts s)"
| "eventTarget ev s = None"

definition clash :: "event \<Rightarrow> sched \<Rightarrow> bool" where
  "clash ev sc =
     (case eventTarget ev (st sc) of
        Some c \<Rightarrow> c \<in> f_container ` set (inflight sc)
      | None \<Rightarrow> False)"

fun noOverlap :: "env \<Rightarrow> event list \<Rightarrow> sched \<Rightarrow> bool" where
  "noOverlap rt [] sc = True"
| "noOverlap rt (ev # evs) sc = (\<not> clash ev sc \<and> noOverlap rt evs (snd (fire rt ev sc)))"

text \<open>
  The bundle a reply carries: the one \<open>render\<close> resolved with, or the one underneath
  the result of \<open>renderHook\<close>.
\<close>

fun bundleOf :: "reply \<Rightarrow> render_result option" where
  "bundleOf (Settled (Inr (RenderResult b))) = Some b"
| "bundleOf (Settled (Inr (HookResult h))) = Some (hr_base h)"
| "bundleOf r = None"

text \<open>
  What one awaited call may do to the store and to the roots: nothing, or record one new
  root for the container the call is for, which was not in the store.
\<close>

definition store_step :: "node option \<Rightarrow> state \<Rightarrow> state \<Rightarrow> bool" where
  "store_step target s s' \<longleftrightarrow>
     (mountedRootEntries s' = mountedRootEntries s \<and>
      mountedContainers s' = mountedContainers s \<and>
      createdRoots s' = createdRoots s) \<or>
     (\<exists>c r. target = Some c \<and> c \<notin> mountedContainers s \<and> rootContainer r = c \<and>
        mountedRootEntries s' = mountedRootEntries s @ [(c, r)] \<and>
        mountedContainers s' = insert c (mountedContainers s) \<and>
        createdRoots s' = createdRoots s @ [r])"

text \<open>
  What every event other than \<open>cleanup\<close> respects: nodes are only added, the nodes there
  are keep their parents, and entries are only added.
\<close>

definition grows :: "state \<Rightarrow> state \<Rightarrow> bool" where
  "grows s s' \<longleftrightarrow>
     nextNode s \<le> nextNode s' \<and>
     (\<forall>n < nextNode s. parentNode s' n = parentNode s n) \<and>
     set (mountedRootEntries s) \<subseteq> set (mountedRootEntries s')"

text \<open>
  What holds of every schedule without overlap: the store is consistent, the suspended
  renders are for pairwise different containers, and none of these containers is in the
  store yet.
\<close>

definition sched_inv :: "sched \<Rightarrow> bool" where
  "sched_inv sc \<longleftrightarrow>
     distinct (map fst (mountedRootEntries (st sc))) \<and>
     mountedContainers (st sc) = fst ` set (mountedRootEntries (st sc)) \<and>
     distinct (map f_container (inflight sc)) \<and>
     f_container ` set (inflight sc) \<inter> fst ` set (mountedRootEntries (st sc)) = {}"


text \<open>A runtime that never throws and has the single-shot mount API, for examples.\<close>

definition quietRuntime :: env where
  "quietRuntime = \<lparr> hasLegacyRender = True, outcome = (\<lambda>_ _. None) \<rparr>"

definition modernRuntime :: env where
  "modernRuntime = \<lparr> hasLegacyRender = False, outcome = (\<lambda>_ _. None) \<rparr>"

definition defaults :: render_options where
  "defaults = \<lparr> opt_container = None, opt_baseElement = None, opt_legacyRoot = False,
                opt_queries = None, opt_hydrate = False, opt_wrapper = None \<rparr>"

subsection \<open>The phases of render, and the invariant of the store\<close>

text \<open>
  For the proofs, the body of \<open>render\<close> after its capability check is cut into what it
  does in order: resolve \<open>baseElement\<close>, resolve \<open>container\<close>, look up or create the
  root. Lemma \<open>render_phases\<close> below shows that \<open>render\<close> is their composition;
  \<open>startAt\<close> is the last phase as \<open>renderStart\<close> has it (lemma
  \<open>renderStart_phases\<close>).
\<close>

definition resolvedBase :: "render_options \<Rightarrow> node" where
  "resolvedBase opts =
     (case opt_baseElement opts of
        Some b \<Rightarrow> b
      | None \<Rightarrow> (case opt_container opts of Some c \<Rightarrow> c | None \<Rightarrow> body))"

definition resolveContainer :: "render_options \<Rightarrow> state \<Rightarrow> node \<times> state" where
  "resolveContainer opts s =
     (case opt_container opts of
        None \<Rightarrow> (nextNode s,
                  s\<lparr>nextNode := Suc (nextNode s),
                    parentNode := (parentNode s)(nextNode s \<mapsto> resolvedBase opts)\<rparr>)
      | Some c \<Rightarrow> (c, s))"

definition obtainRoot ::
  "env \<Rightarrow> element \<Rightarrow> render_options \<Rightarrow> node \<Rightarrow> state \<Rightarrow> (error + root option) \<times> state" where
  "obtainRoot rt ui opts container s =
     (if container \<notin> mountedContainers s
      then (case (if opt_legacyRoot opts then createLegacyRoot container s
                  else createConcurrentRoot rt container (opt_hydrate opts) ui
                         (opt_wrapper opts) s) of
              (Inl e, s2) \<Rightarrow> (Inl e, s2)
            | (Inr root, s2) \<Rightarrow>
                (Inr (Some root),
                 s2\<lparr>mountedRootEntries := mountedRootEntries s2 @ [(container, root)],
                    mountedContainers := insert container (mountedContainers s2)\<rparr>))
      else (Inr (findRoot (mountedRootEntries s) container None), s))"

definition startAt ::
  "env \<Rightarrow> element \<Rightarrow> render_options \<Rightarrow> node \<Rightarrow> state \<Rightarrow> progress \<times> state" where
  "startAt rt ui opts container s =
     (if container \<notin> mountedContainers s
      then (case (if opt_legacyRoot opts then createLegacyRoot container s
                  else createConcurrentRoot rt container (opt_hydrate opts) ui
                         (opt_wrapper opts) s) of
              (Inl e, s2) \<Rightarrow> (Done (Inl e), s2)
            | (Inr root, s2) \<Rightarrow>
                (Suspended \<lparr> f_ui = ui, f_baseElement = resolvedBase opts,
                             f_container = container, f_hydrate = opt_hydrate opts,
                             f_queries = opt_queries opts, f_wrapper = opt_wrapper opts,
                             f_root = root \<rparr>, s2))
      else (case renderRoot rt ui (resolvedBase opts) container (opt_hydrate opts)
                   (opt_queries opts) (findRoot (mountedRootEntries s) container None)
                   (opt_wrapper opts) s of
              (out, s2) \<Rightarrow> (Done out, s2)))"

text \<open>
  The store is consistent when no container has two entries and the set holds exactly the
  containers of the entries.
\<close>

definition store_inv :: "state \<Rightarrow> bool" where
  "store_inv s \<longleftrightarrow>
     distinct (map fst (mountedRootEntries s)) \<and>
     mountedContainers s = fst ` set (mountedRootEntries s)"

subsection \<open>Concrete runs\<close>

text \<open>
  A test that renders with the defaults and then asks to hydrate into the container it
  got back.
\<close>

definition hydrateAfterRender :: "op list" where
  "hydrateAfterRender =
     [Render (Ui 0) defaults,
      Render (Ui 0) (defaults\<lparr>opt_container := Some 2, opt_hydrate := True\<rparr>)]"

text \<open>
  The page of a test that has created a div itself (node 2) and appended it to
  \<open>document.body\<close>, to pass it as \<open>container\<close>.
\<close>

definition callerDiv :: state where
  "callerDiv = (case createElement init of (el, s) \<Rightarrow> appendChild body el s)"

text \<open>A runtime in which unmounting a concurrent root throws.\<close>

definition failingUnmount :: env where
  "failingUnmount =
     \<lparr> hasLegacyRender = True,
       outcome = (\<lambda>log c. case c of RootUnmount i \<Rightarrow> Some 7 | _ \<Rightarrow> None) \<rparr>"

text \<open>
  The states in which \<open>cleanup\<close> is tried: after a \<open>render\<close> with the defaults, after a
  \<open>render\<close> into the caller's div, and after a \<open>render\<close> with the defaults in the
  runtime whose unmount throws.
\<close>

definition afterDefaultRender :: state where
  "afterDefaultRender = snd (render quietRuntime (Ui 0) defaults init)"

definition afterRenderIntoCallerDiv :: state where
  "afterRenderIntoCallerDiv =
     snd (render quietRuntime (Ui 0) (defaults\<lparr>opt_container := Some 2\<rparr>) callerDiv)"

definition afterRenderFailingUnmount :: state where
  "afterRenderFailingUnmount = snd (render failingUnmount (Ui 0) defaults init)"

text \<open>
  Two schedules. In the first, two renders with the defaults are started one after the
  other (the adapter creates containers 2 and 3), go on in the opposite order, and a third
  render into container 2 is awaited. In the second, on the page with the caller's div,
  two renders into that div are started one after the other and then go on in the order
  in which they were started: \<open>render(a, {container}); render(b, {container})\<close> with
  neither awaited.
\<close>

definition interleavedRenders :: "event list" where
  "interleavedRenders =
     [Issue (Ui 0) defaults, Issue (Ui 1) defaults, Continue 1, Continue 0,
      Await (Render (Ui 2) (defaults\<lparr>opt_container := Some 2\<rparr>))]"

definition overlappingRenders :: "event list" where
  "overlappingRenders =
     [Issue (Ui 0) (defaults\<lparr>opt_container := Some 2\<rparr>),
      Issue (Ui 1) (defaults\<lparr>opt_container := Some 2\<rparr>),
      Continue 0, Continue 0]"

definition onCallerDiv :: sched where
  "onCallerDiv = \<lparr> st = callerDiv, inflight = [] \<rparr>"



text \<open>
  The page with the caller's div after \<open>configure({reactStrictMode: true})\<close>, and render
  options that pass that div and a wrapper component.
\<close>

definition strictCallerDiv :: state where
  "strictCallerDiv = configure True callerDiv"

definition wrappedIntoDiv :: render_options where
  "wrappedIntoDiv = defaults\<lparr>opt_container := Some 2, opt_wrapper := Some 5\<rparr>"

text \<open>
  After the render with the defaults, a second render with the defaults is started and
  goes on; then \<open>cleanup\<close> is tried.
\<close>

definition secondRender :: "event list" where
  "secondRender = [Issue (Ui 1) defaults, Continue 0]"

definition afterSecondRender :: state where
  "afterSecondRender =
     st (snd (exec quietRuntime secondRender \<lparr> st = afterDefaultRender, inflight = [] \<rparr>))"

text \<open>A runtime in which \<open>createRoot\<close> throws.\<close>

definition failingCreateRoot :: env where
  "failingCreateRoot =
     \<lparr> hasLegacyRender = True,
       outcome = (\<lambda>log c. case c of CreateRoot n \<Rightarrow> Some 9 | _ \<Rightarrow> None) \<rparr>"

subsection \<open>Vocabulary of the statements\<close>

text \<open>
  The call by which the \<open>render\<close> method of a root handle mounts an element, and the
  element a runtime call carries, if any.
\<close>

definition renderCall :: "root \<Rightarrow> element \<Rightarrow> rt_call" where
  "renderCall r el =
     (case rootImpl r of
        ConcurrentRoot hydrate \<Rightarrow> RootRender (rootId r) el
      | LegacyRoot \<Rightarrow> LegacyRender el (rootContainer r))"

fun call_element :: "rt_call \<Rightarrow> element option" where
  "call_element (HydrateRoot c el) = Some el"
| "call_element (CreateRoot c) = None"
| "call_element (RootRender i el) = Some el"
| "call_element (RootUnmount i) = None"
| "call_element (LegacyHydrate el c) = Some el"
| "call_element (LegacyRender el c) = Some el"
| "call_element (UnmountComponentAtNode c) = None"

section \<open>What each function leaves alone\<close>

lemma invoke_frame:
  "invoke rt c s = (out, s') \<Longrightarrow> s' = s\<lparr>calls := calls s @ [c]\<rparr>"
  by (auto simp: invoke_def split: option.splits)

lemma invoke_error:
  "invoke rt c s = (Inl e, s') \<Longrightarrow> \<exists>k. e = RuntimeError k"
  by (auto simp: invoke_def split: option.splits)

lemma root_render_frame:
  "root_render rt r el s = (out, s') \<Longrightarrow> \<exists>c. s' = s\<lparr>calls := calls s @ [c]\<rparr>"
  by (auto simp: root_render_def split: root_impl.splits dest: invoke_frame)

lemma root_unmount_frame:
  "root_unmount rt r s = (out, s') \<Longrightarrow> \<exists>c. s' = s\<lparr>calls := calls s @ [c]\<rparr>"
  by (auto simp: root_unmount_def split: root_impl.splits dest: invoke_frame)

lemma root_hydrate_frame:
  "root_hydrate rt r el s = (out, s') \<Longrightarrow> \<exists>cs. s' = s\<lparr>calls := calls s @ cs\<rparr>"
  apply (auto simp: root_hydrate_def split: root_impl.splits if_splits dest: invoke_frame)
   apply (rule exI[of _ "[]"], simp)+
  done

lemma renderRoot_frame:
  "renderRoot rt ui b c h q root w s = (out, s') \<Longrightarrow> \<exists>cs. s' = s\<lparr>calls := calls s @ cs\<rparr>"
  apply (auto simp: renderRoot_def split: option.splits if_splits sum.splits prod.splits
      dest: root_hydrate_frame root_render_frame)
   apply (rule exI[of _ "[]"], simp)+
  done

lemma renderRoot_result:
  "renderRoot rt ui b c h q root w s = (Inr res, s') \<Longrightarrow>
     \<exists>r. root = Some r \<and> res = \<lparr> rr_container = c, rr_baseElement = b, rr_root = r,
                      rr_wrapper = w, rr_queries = q \<rparr>"
  by (auto simp: renderRoot_def split: option.splits if_splits sum.splits prod.splits)

lemma createLegacyRoot_eq:
  "createLegacyRoot c s =
     (Inr (Root (length (createdRoots s)) c LegacyRoot),
      s\<lparr>createdRoots := createdRoots s @ [Root (length (createdRoots s)) c LegacyRoot]\<rparr>)"
  by (simp add: createLegacyRoot_def newRoot_def Let_def)

lemma createConcurrentRoot_cases:
  "createConcurrentRoot rt c h ui w s = (out, s') \<Longrightarrow>
     (\<exists>k call. out = Inl (RuntimeError k) \<and> s' = s\<lparr>calls := calls s @ [call]\<rparr>) \<or>
     (\<exists>call. out = Inr (Root (length (createdRoots s)) c (ConcurrentRoot h)) \<and>
        s' = s\<lparr>calls := calls s @ [call],
               createdRoots :=
                 createdRoots s @ [Root (length (createdRoots s)) c (ConcurrentRoot h)]\<rparr>)"
  by (auto simp: createConcurrentRoot_def newRoot_def Let_def invoke_def
      split: if_splits sum.splits prod.splits option.splits)

section \<open>render as the composition of its phases\<close>

lemma obtainRoot_then:
  "(case obtainRoot rt ui opts c s of
      (Inl e, s2) \<Rightarrow> (Inl e, s2)
    | (Inr root, s2) \<Rightarrow> k root s2) =
   (if c \<notin> mountedContainers s
    then (case (if opt_legacyRoot opts then createLegacyRoot c s
                else createConcurrentRoot rt c (opt_hydrate opts) ui (opt_wrapper opts) s) of
            (Inl e, s2) \<Rightarrow> (Inl e, s2)
          | (Inr root, s2) \<Rightarrow>
              k (Some root)
                (s2\<lparr>mountedRootEntries := mountedRootEntries s2 @ [(c, root)],
                    mountedContainers := insert c (mountedContainers s2)\<rparr>))
    else k (findRoot (mountedRootEntries s) c None) s)"
proof (cases "c \<in> mountedContainers s")
  case True
  then show ?thesis by (simp add: obtainRoot_def)
next
  case False
  obtain out s2 where cr:
    "(if opt_legacyRoot opts then createLegacyRoot c s
      else createConcurrentRoot rt c (opt_hydrate opts) ui (opt_wrapper opts) s) = (out, s2)"
    by (cases "(if opt_legacyRoot opts then createLegacyRoot c s
                else createConcurrentRoot rt c (opt_hydrate opts) ui (opt_wrapper opts) s)")
  show ?thesis
    unfolding obtainRoot_def cr using False by (cases out) simp_all
qed

lemma render_phases:
  "render rt ui opts s =
     (if opt_legacyRoot opts \<and> \<not> hasLegacyRender rt
      then (Inl (LegacyRootUnsupported legacyRootMessage), s)
      else (case resolveContainer opts s of
              (container, s1) \<Rightarrow>
                (case obtainRoot rt ui opts container s1 of
                   (Inl e, s2) \<Rightarrow> (Inl e, s2)
                 | (Inr root, s2) \<Rightarrow>
                     renderRoot rt ui (resolvedBase opts) container (opt_hydrate opts)
                       (opt_queries opts) root (opt_wrapper opts) s2)))"
proof (cases "opt_container opts")
  case None
  then show ?thesis
    unfolding obtainRoot_then
    by (cases "opt_baseElement opts")
       (simp_all add: render_def resolveContainer_def resolvedBase_def Let_def
          createElement_def appendChild_def cong: prod.case_cong sum.case_cong)
next
  case (Some c)
  then show ?thesis
    unfolding obtainRoot_then
    by (cases "opt_baseElement opts")
       (simp_all add: render_def resolveContainer_def resolvedBase_def Let_def
          cong: prod.case_cong sum.case_cong)
qed

lemma findRoot_snoc:
  "findRoot (xs @ [x]) c r1 = (if fst x = c then Some (snd x) else findRoot xs c r1)"
  by (induction xs arbitrary: r1) auto

lemma findRoot_Some:
  "findRoot es c r0 = Some r \<Longrightarrow> (c, r) \<in> set es \<or> r0 = Some r"
  by (induction es rule: rev_induct) (auto simp: findRoot_snoc split: if_splits)

lemma findRoot_found:
  "c \<in> fst ` set es \<Longrightarrow> \<exists>r. findRoot es c r0 = Some r"
  by (induction es rule: rev_induct) (auto simp: findRoot_snoc)

text \<open>
  What \<open>obtainRoot\<close> does: it reuses the recorded root, or fails in the runtime, or
  constructs one root and records it.
\<close>

lemma obtainRoot_cases:
  assumes "obtainRoot rt ui opts c s = (out, s')"
  shows "(c \<in> mountedContainers s \<and> out = Inr (findRoot (mountedRootEntries s) c None) \<and> s' = s)
       \<or> (c \<notin> mountedContainers s \<and> (\<exists>k call. out = Inl (RuntimeError k) \<and> s' = s\<lparr>calls := calls s @ [call]\<rparr>))
       \<or> (c \<notin> mountedContainers s \<and> (\<exists>impl cs. 
             out = Inr (Some (Root (length (createdRoots s)) c impl)) \<and>
             s' = s\<lparr>calls := calls s @ cs,
                    createdRoots := createdRoots s @ [Root (length (createdRoots s)) c impl],
                    mountedRootEntries := mountedRootEntries s @ [(c, Root (length (createdRoots s)) c impl)],
                    mountedContainers := insert c (mountedContainers s)\<rparr>))"
proof (cases "c \<in> mountedContainers s")
  case True
  with assms show ?thesis by (auto simp: obtainRoot_def)
next
  case False
  show ?thesis
  proof (cases "opt_legacyRoot opts")
    case True
    with False assms have "out = Inr (Some (Root (length (createdRoots s)) c LegacyRoot))"
      and "s' = s\<lparr>calls := calls s @ [],
                    createdRoots := createdRoots s @ [Root (length (createdRoots s)) c LegacyRoot],
                    mountedRootEntries := mountedRootEntries s @ [(c, Root (length (createdRoots s)) c LegacyRoot)],
                    mountedContainers := insert c (mountedContainers s)\<rparr>"
      by (auto simp: obtainRoot_def createLegacyRoot_eq)
    with False show ?thesis by blast
  next
    case legacy: False
    obtain o1 s1 where c1: "createConcurrentRoot rt c (opt_hydrate opts) ui (opt_wrapper opts) s = (o1, s1)"
      by (cases "createConcurrentRoot rt c (opt_hydrate opts) ui (opt_wrapper opts) s")
    from createConcurrentRoot_cases[OF c1] show ?thesis
    proof
      assume "\<exists>k call. o1 = Inl (RuntimeError k) \<and> s1 = s\<lparr>calls := calls s @ [call]\<rparr>"
      with assms False legacy c1 show ?thesis by (auto simp: obtainRoot_def)
    next
      assume "\<exists>call. o1 = Inr (Root (length (createdRoots s)) c (ConcurrentRoot (opt_hydrate opts))) \<and>
        s1 = s\<lparr>calls := calls s @ [call],
               createdRoots := createdRoots s @ [Root (length (createdRoots s)) c (ConcurrentRoot (opt_hydrate opts))]\<rparr>"
      then obtain call where "o1 = Inr (Root (length (createdRoots s)) c (ConcurrentRoot (opt_hydrate opts)))"
        and "s1 = s\<lparr>calls := calls s @ [call],
               createdRoots := createdRoots s @ [Root (length (createdRoots s)) c (ConcurrentRoot (opt_hydrate opts))]\<rparr>"
        by blast
      with assms False legacy c1 have "out = Inr (Some (Root (length (createdRoots s)) c (ConcurrentRoot (opt_hydrate opts))))"
       and "s' = s\<lparr>calls := calls s @ [call],
                    createdRoots := createdRoots s @ [Root (length (createdRoots s)) c (ConcurrentRoot (opt_hydrate opts))],
                    mountedRootEntries := mountedRootEntries s @ [(c, Root (length (createdRoots s)) c (ConcurrentRoot (opt_hydrate opts)))],
                    mountedContainers := insert c (mountedContainers s)\<rparr>"
        by (auto simp: obtainRoot_def)
      with False show ?thesis by blast
    qed
  qed
qed

section \<open>The store invariant\<close>

lemma resolveContainer_store:
  "resolveContainer opts s = (c, s1) \<Longrightarrow>
     mountedContainers s1 = mountedContainers s \<and> mountedRootEntries s1 = mountedRootEntries s \<and>
     createdRoots s1 = createdRoots s \<and> calls s1 = calls s \<and> reactStrictMode s1 = reactStrictMode s"
  by (auto simp: resolveContainer_def split: option.splits)

lemma render_elim:
  assumes "render rt ui opts s = (out, s')"
    and "\<not> (opt_legacyRoot opts \<and> \<not> hasLegacyRender rt)"
  obtains c s1 o2 s2 where
    "resolveContainer opts s = (c, s1)"
    "obtainRoot rt ui opts c s1 = (o2, s2)"
    "(\<exists>e. o2 = Inl e \<and> out = Inl e \<and> s' = s2) \<or>
     (\<exists>root. o2 = Inr root \<and>
        renderRoot rt ui (resolvedBase opts) c (opt_hydrate opts) (opt_queries opts) root
          (opt_wrapper opts) s2 = (out, s'))"
proof -
  obtain c s1 where rc: "resolveContainer opts s = (c, s1)"
    by (cases "resolveContainer opts s")
  obtain o2 s2 where ob: "obtainRoot rt ui opts c s1 = (o2, s2)"
    by (cases "obtainRoot rt ui opts c s1")
  from assms rc ob have
    "(\<exists>e. o2 = Inl e \<and> out = Inl e \<and> s' = s2) \<or>
     (\<exists>root. o2 = Inr root \<and>
        renderRoot rt ui (resolvedBase opts) c (opt_hydrate opts) (opt_queries opts) root
          (opt_wrapper opts) s2 = (out, s'))"
    by (cases o2) (simp_all add: render_phases)
  with rc ob show thesis by (rule that)
qed

lemma obtainRoot_store_inv:
  assumes "obtainRoot rt ui opts c s = (out, s')" and "store_inv s"
  shows "store_inv s'"
  using obtainRoot_cases[OF assms(1)] assms(2)
  by (elim disjE conjE exE; force simp: store_inv_def)

lemma store_inv_calls:
  "store_inv (s\<lparr>calls := cs\<rparr>) = store_inv s"
  by (simp add: store_inv_def)

lemma render_store_inv:
  assumes "render rt ui opts s = (out, s')" and "store_inv s"
  shows "store_inv s'"
proof (cases "opt_legacyRoot opts \<and> \<not> hasLegacyRender rt")
  case True
  with assms show ?thesis by (simp add: render_phases)
next
  case False
  from assms(1) False obtain c s1 o2 s2 where
    rc: "resolveContainer opts s = (c, s1)" and
    ob: "obtainRoot rt ui opts c s1 = (o2, s2)" and
    rest: "(\<exists>e. o2 = Inl e \<and> out = Inl e \<and> s' = s2) \<or>
     (\<exists>root. o2 = Inr root \<and>
        renderRoot rt ui (resolvedBase opts) c (opt_hydrate opts) (opt_queries opts) root
          (opt_wrapper opts) s2 = (out, s'))"
    by (rule render_elim)
  from resolveContainer_store[OF rc] assms(2) have "store_inv s1"
    by (simp add: store_inv_def)
  with ob have s2: "store_inv s2" by (rule obtainRoot_store_inv)
  from rest show ?thesis
  proof
    assume "\<exists>e. o2 = Inl e \<and> out = Inl e \<and> s' = s2"
    with s2 show ?thesis by blast
  next
    assume "\<exists>root. o2 = Inr root \<and>
        renderRoot rt ui (resolvedBase opts) c (opt_hydrate opts) (opt_queries opts) root
          (opt_wrapper opts) s2 = (out, s')"
    then obtain cs where "s' = s2\<lparr>calls := calls s2 @ cs\<rparr>"
      by (blast dest: renderRoot_frame)
    with s2 show ?thesis by (simp add: store_inv_calls)
  qed
qed

lemma cleanupEntry_frame:
  "cleanupEntry rt entry s = (out, s') \<Longrightarrow>
     mountedContainers s' = mountedContainers s \<and> mountedRootEntries s' = mountedRootEntries s \<and>
     createdRoots s' = createdRoots s \<and> nextNode s' = nextNode s \<and>
     reactStrictMode s' = reactStrictMode s"
  by (auto simp: cleanupEntry_def removeChild_def split: prod.splits sum.splits if_splits
      dest!: root_unmount_frame)

lemma cleanupEntries_frame:
  "cleanupEntries rt es s = (outs, s') \<Longrightarrow>
     mountedContainers s' = mountedContainers s \<and> mountedRootEntries s' = mountedRootEntries s \<and>
     createdRoots s' = createdRoots s \<and> nextNode s' = nextNode s \<and>
     reactStrictMode s' = reactStrictMode s"
proof (induction es arbitrary: s outs s')
  case Nil
  then show ?case by simp
next
  case (Cons entry es)
  obtain out s1 where e: "cleanupEntry rt entry s = (out, s1)"
    by (cases "cleanupEntry rt entry s")
  obtain outs1 s2 where r: "cleanupEntries rt es s1 = (outs1, s2)"
    by (cases "cleanupEntries rt es s1")
  from Cons.prems e r have "s' = s2" by simp
  with Cons.IH[OF r] cleanupEntry_frame[OF e] show ?case by simp
qed

lemma cleanup_store_inv: 
  assumes "cleanup rt s = (out, s')" and "store_inv s"
  shows "store_inv s'"
proof -
  obtain outs s1 where r: "cleanupEntries rt (mountedRootEntries s) s = (outs, s1)"
    by (cases "cleanupEntries rt (mountedRootEntries s) s")
  from cleanupEntries_frame[OF r] assms(2) have "store_inv s1"
    by (simp add: store_inv_def)
  with assms(1) r show ?thesis
    by (cases "firstError outs") (auto simp: cleanup_def store_inv_def)
qed

lemma rerender_frame:
  "rerender rt b ui s = (out, s') \<Longrightarrow> \<exists>cs. s' = s\<lparr>calls := calls s @ cs\<rparr>"
  by (auto simp: rerender_def split: prod.splits sum.splits dest: renderRoot_frame)

lemma renderHook_store_inv:
  assumes "renderHook rt cb options s = (out, s')" and "store_inv s"
  shows "store_inv s'"
proof (cases "opt_legacyRoot (renderOptions options) \<and> \<not> hasLegacyRender rt")
  case True
  with assms show ?thesis by (simp add: renderHook_def)
next
  case False
  obtain o1 s1 where r: "render rt (CreateElement (TestComponent cb)
       (RenderCallbackProps (initialProps options)) []) (renderOptions options) s = (o1, s1)"
    by (cases "render rt (CreateElement (TestComponent cb)
       (RenderCallbackProps (initialProps options)) []) (renderOptions options) s")
  from r assms(2) have "store_inv s1" by (rule render_store_inv)
  moreover from assms(1) False r have "s' = s1"
    by (cases o1) (simp_all add: renderHook_def)
  ultimately show ?thesis by simp
qed

lemma step_store_inv:
  assumes "step rt x s = (out, s')" and "store_inv s"
  shows "store_inv s'"
proof (cases x)
  case (Render ui opts)
  obtain o1 s1 where r: "render rt ui opts s = (o1, s1)" by (cases "render rt ui opts s")
  from r assms(2) have "store_inv s1" by (rule render_store_inv)
  moreover from assms(1) Render r have "s' = s1" by (cases o1) simp_all
  ultimately show ?thesis by simp
next
  case (RenderHook cb options)
  obtain o1 s1 where r: "renderHook rt cb options s = (o1, s1)"
    by (cases "renderHook rt cb options s")
  from r assms(2) have "store_inv s1" by (rule renderHook_store_inv)
  moreover from assms(1) RenderHook r have "s' = s1" by (cases o1) simp_all
  ultimately show ?thesis by simp
next
  case (Rerender b ui)
  with assms(1) obtain cs where "s' = s\<lparr>calls := calls s @ cs\<rparr>"
    by (auto dest: rerender_frame)
  with assms(2) show ?thesis by (simp add: store_inv_calls)
next
  case (HookRerender h p)
  with assms(1) obtain cs where "s' = s\<lparr>calls := calls s @ cs\<rparr>"
    by (auto simp: hookRerender_def dest: rerender_frame)
  with assms(2) show ?thesis by (simp add: store_inv_calls)
next
  case (Unmount b)
  obtain o1 s1 where r: "unmount rt b s = (o1, s1)" by (cases "unmount rt b s")
  then obtain c where "s1 = s\<lparr>calls := calls s @ [c]\<rparr>"
    by (auto simp: unmount_def dest: root_unmount_frame)
  moreover from assms(1) Unmount r have "s' = s1" by (cases o1) simp_all
  ultimately show ?thesis using assms(2) by (simp add: store_inv_calls)
next
  case Cleanup
  obtain o1 s1 where r: "cleanup rt s = (o1, s1)" by (cases "cleanup rt s")
  from r assms(2) have "store_inv s1" by (rule cleanup_store_inv)
  moreover from assms(1) Cleanup r have "s' = s1" by (cases o1) simp_all
  ultimately show ?thesis by simp
next
  case (Configure b)
  with assms(1) have "s' = s\<lparr>reactStrictMode := b\<rparr>" by (simp add: configure_def)
  with assms(2) show ?thesis by (simp add: store_inv_def)
qed

lemma store_inv_init: "store_inv init"
  by (simp add: store_inv_def init_def)

section \<open>Evaluating concrete runs\<close>

lemmas run_defs =
  render_def renderRoot_def root_render_def root_hydrate_def root_unmount_def invoke_def
  createConcurrentRoot_def createLegacyRoot_def newRoot_def createElement_def appendChild_def
  removeChild_def strictModeIfNeeded_def wrapUiIfNeeded_def cleanup_def cleanupEntry_def
  rerender_def unmount_def renderHook_def hookRerender_def configure_def
  quietRuntime_def modernRuntime_def failingUnmount_def callerDiv_def defaults_def init_def
  afterDefaultRender_def afterRenderIntoCallerDiv_def afterRenderFailingUnmount_def
  renderStart_def renderResume_def settled_def start_def onCallerDiv_def clash_def
  renderTarget_def strictCallerDiv_def wrappedIntoDiv_def failingCreateRoot_def
  body_def documentElement_def Let_def

section \<open>Values of rerender\<close>

lemma rerender_value:
  "rerender rt b ui s = (Inr v, s') \<Longrightarrow> v = Undefined"
  by (auto simp: rerender_def split: prod.splits sum.splits)

section \<open>The two thrown errors\<close>

lemma root_hydrate_concurrent:
  "root_hydrate rt (Root i c (ConcurrentRoot h)) el s =
     (if h then (Inr (), s) else (Inl (NonHydrateableRoot nonHydrateableMessage), s))"
  by (simp add: root_hydrate_def)

lemma renderRoot_error:
  "renderRoot rt ui b c h q root w s = (Inl e, s') \<Longrightarrow>
     e = TypeError \<or> e = NonHydrateableRoot nonHydrateableMessage \<or> (\<exists>k. e = RuntimeError k)"
  by (auto simp: renderRoot_def root_hydrate_def root_render_def
      split: option.splits if_splits sum.splits prod.splits root_impl.splits
      dest: invoke_error)

lemma render_error:
  assumes "render rt ui opts s = (out, s')" and "out = Inl e"
    and "\<not> (opt_legacyRoot opts \<and> \<not> hasLegacyRender rt)"
  shows "e = TypeError \<or> e = NonHydrateableRoot nonHydrateableMessage \<or> (\<exists>k. e = RuntimeError k)"
proof -
  from assms(1,3) obtain c s1 o2 s2 where
    rc: "resolveContainer opts s = (c, s1)" and
    ob: "obtainRoot rt ui opts c s1 = (o2, s2)" and
    rest: "(\<exists>e. o2 = Inl e \<and> out = Inl e \<and> s' = s2) \<or>
     (\<exists>root. o2 = Inr root \<and>
        renderRoot rt ui (resolvedBase opts) c (opt_hydrate opts) (opt_queries opts) root
          (opt_wrapper opts) s2 = (out, s'))"
    by (rule render_elim)
  from rest show ?thesis
  proof
    assume "\<exists>e. o2 = Inl e \<and> out = Inl e \<and> s' = s2"
    with assms(2) have "o2 = Inl e" by auto
    with obtainRoot_cases[OF ob] show ?thesis by auto
  next
    assume "\<exists>root. o2 = Inr root \<and>
        renderRoot rt ui (resolvedBase opts) c (opt_hydrate opts) (opt_queries opts) root
          (opt_wrapper opts) s2 = (out, s')"
    with assms(2) show ?thesis by (blast dest: renderRoot_error)
  qed
qed

lemma render_legacy_iff:
  "(fst (render rt ui opts s) = Inl (LegacyRootUnsupported m)) =
   (opt_legacyRoot opts \<and> \<not> hasLegacyRender rt \<and> m = legacyRootMessage)"
proof (cases "opt_legacyRoot opts \<and> \<not> hasLegacyRender rt")
  case True
  then show ?thesis by (auto simp: render_phases)
next
  case False
  have "fst (render rt ui opts s) \<noteq> Inl (LegacyRootUnsupported m)"
  proof
    assume "fst (render rt ui opts s) = Inl (LegacyRootUnsupported m)"
    then have "render rt ui opts s = (Inl (LegacyRootUnsupported m), snd (render rt ui opts s))"
      by (metis prod.collapse)
    from render_error[OF this refl False] show False by auto
  qed
  with False show ?thesis by auto
qed

text \<open>
  Claim C4. When \<open>legacyRoot: true\<close> is requested and \<open>ReactDOM.render\<close> is not a
  function, \<open>render\<close> rejects with the legacy-root-unsupported error, whose message is
  the remediation text, and the state it leaves is the state it found: no element was
  created, nothing was appended, the store and the runtime were not touched.
\<close>

theorem render_legacy_unsupported:
  assumes "opt_legacyRoot opts" and "\<not> hasLegacyRender rt"
  shows "render rt ui opts s = (Inl (LegacyRootUnsupported legacyRootMessage), s)"
  using assms by (simp add: render_def)

theorem render_legacy_unsupported_witness:
  "opt_legacyRoot (defaults\<lparr>opt_legacyRoot := True\<rparr>) \<and> \<not> hasLegacyRender modernRuntime \<and>
   render modernRuntime (Ui 0) (defaults\<lparr>opt_legacyRoot := True\<rparr>) init =
     (Inl (LegacyRootUnsupported legacyRootMessage), init)"
proof -
  have h1: "opt_legacyRoot (defaults\<lparr>opt_legacyRoot := True\<rparr>)" by simp
  have h2: "\<not> hasLegacyRender modernRuntime" by (simp add: modernRuntime_def)
  from render_legacy_unsupported[OF h1 h2] h1 h2 show ?thesis by blast
qed

text \<open>
  Claim C9. \<open>renderHook\<close> rejects with the legacy-root-unsupported error exactly when
  \<open>legacyRoot\<close> is set in its render options and \<open>ReactDOM.render\<close> is not a function,
  and the message is then the remediation text; the same holds, word for word, of
  \<open>render\<close> called with those render options. So the two fail with this error under the
  same condition and with the same message.
\<close>

theorem renderHook_same_legacy_check:
  "(fst (renderHook rt cb options s) = Inl (LegacyRootUnsupported m)) =
     (opt_legacyRoot (renderOptions options) \<and> \<not> hasLegacyRender rt \<and> m = legacyRootMessage) \<and>
   (fst (render rt ui (renderOptions options) s) = Inl (LegacyRootUnsupported m)) =
     (opt_legacyRoot (renderOptions options) \<and> \<not> hasLegacyRender rt \<and> m = legacyRootMessage)"
proof (rule conjI)
  show "(fst (render rt ui (renderOptions options) s) = Inl (LegacyRootUnsupported m)) =
     (opt_legacyRoot (renderOptions options) \<and> \<not> hasLegacyRender rt \<and> m = legacyRootMessage)"
    by (rule render_legacy_iff)
  show "(fst (renderHook rt cb options s) = Inl (LegacyRootUnsupported m)) =
     (opt_legacyRoot (renderOptions options) \<and> \<not> hasLegacyRender rt \<and> m = legacyRootMessage)"
  proof (cases "opt_legacyRoot (renderOptions options) \<and> \<not> hasLegacyRender rt")
    case True
    then show ?thesis by (auto simp: renderHook_def)
  next
    case False
    obtain o1 s1 where r: "render rt (CreateElement (TestComponent cb)
         (RenderCallbackProps (initialProps options)) []) (renderOptions options) s = (o1, s1)"
      by (cases "render rt (CreateElement (TestComponent cb)
         (RenderCallbackProps (initialProps options)) []) (renderOptions options) s")
    from render_legacy_iff[of rt "CreateElement (TestComponent cb)
         (RenderCallbackProps (initialProps options)) []" "renderOptions options" s m] r False
    have "o1 \<noteq> Inl (LegacyRootUnsupported m)" by auto
    with r False show ?thesis by (cases o1) (auto simp: renderHook_def)
  qed
qed

text \<open>
  Claim C3. The claim holds of \<open>hydrate()\<close> itself (lemma
  \<open>root_hydrate_concurrent\<close>), but the throwing branch is reachable through \<open>render\<close>:
  a first \<open>render\<close> records a concurrent root constructed without hydration, and a
  second \<open>render\<close> into the same container with \<open>hydrate: true\<close> reuses that root and
  calls its \<open>hydrate()\<close>.
\<close>

theorem hydrate_after_render_throws:
  "fst (run quietRuntime hydrateAfterRender init) =
     [Inr (RenderResult \<lparr> rr_container = 2, rr_baseElement = 1,
              rr_root = Root 0 2 (ConcurrentRoot False), rr_wrapper = None,
              rr_queries = None \<rparr>),
      Inl (NonHydrateableRoot nonHydrateableMessage)]"
  by (simp add: hydrateAfterRender_def run_defs)

text \<open>
  Claim C6. \<open>rerender\<close> makes exactly one call into the runtime, the \<open>render\<close> of the
  bundle's own root handle with the decorated new UI, and changes nothing else: the store,
  the root handles constructed, the DOM nodes and their parents are as before. It resolves
  with \<open>undefined\<close>, or rejects with what the runtime threw.
\<close>

theorem rerender_same_root:
  "mountedContainers (snd (rerender rt b ui s)) = mountedContainers s \<and>
   mountedRootEntries (snd (rerender rt b ui s)) = mountedRootEntries s \<and>
   createdRoots (snd (rerender rt b ui s)) = createdRoots s \<and>
   nextNode (snd (rerender rt b ui s)) = nextNode s \<and>
   parentNode (snd (rerender rt b ui s)) = parentNode s \<and>
   calls (snd (rerender rt b ui s)) =
     calls s @ [renderCall (rr_root b) (strictModeIfNeeded s (wrapUiIfNeeded ui (rr_wrapper b)))] \<and>
   (fst (rerender rt b ui s) = Inr Undefined \<or>
    (\<exists>k. fst (rerender rt b ui s) = Inl (RuntimeError k)))"
  by (cases "rootImpl (rr_root b)")
     (auto simp: rerender_def renderRoot_def root_render_def invoke_def renderCall_def
        split: option.splits)

section \<open>What render resolves and returns\<close>

lemma obtainRoot_dom:
  assumes "obtainRoot rt ui opts c s = (out, s')"
  shows "nextNode s' = nextNode s \<and> parentNode s' = parentNode s"
  using obtainRoot_cases[OF assms] by (elim disjE conjE exE) simp_all

lemma obtainRoot_recorded:
  assumes "obtainRoot rt ui opts c s = (Inr (Some r), s')"
  shows "(c, r) \<in> set (mountedRootEntries s')"
  using obtainRoot_cases[OF assms] by (elim disjE conjE exE) (auto dest: findRoot_Some[OF sym])

lemma render_shape:
  assumes "render rt ui opts s = (out, s')"
    and "\<not> (opt_legacyRoot opts \<and> \<not> hasLegacyRender rt)"
  shows "nextNode s' = nextNode (snd (resolveContainer opts s)) \<and>
         parentNode s' = parentNode (snd (resolveContainer opts s)) \<and>
         (out = Inr b \<longrightarrow>
            rr_container b = fst (resolveContainer opts s) \<and>
            rr_baseElement b = resolvedBase opts \<and>
            (rr_container b, rr_root b) \<in> set (mountedRootEntries s'))"
proof -
  from assms obtain c s1 o2 s2 where
    rc: "resolveContainer opts s = (c, s1)" and
    ob: "obtainRoot rt ui opts c s1 = (o2, s2)" and
    rest: "(\<exists>e. o2 = Inl e \<and> out = Inl e \<and> s' = s2) \<or>
     (\<exists>root. o2 = Inr root \<and>
        renderRoot rt ui (resolvedBase opts) c (opt_hydrate opts) (opt_queries opts) root
          (opt_wrapper opts) s2 = (out, s'))"
    by (rule render_elim)
  note d = obtainRoot_dom[OF ob]
  from rest show ?thesis
  proof
    assume "\<exists>e. o2 = Inl e \<and> out = Inl e \<and> s' = s2"
    with d rc show ?thesis by auto
  next
    assume "\<exists>root. o2 = Inr root \<and>
        renderRoot rt ui (resolvedBase opts) c (opt_hydrate opts) (opt_queries opts) root
          (opt_wrapper opts) s2 = (out, s')"
    then obtain root where o2: "o2 = Inr root" and
      rr: "renderRoot rt ui (resolvedBase opts) c (opt_hydrate opts) (opt_queries opts) root
          (opt_wrapper opts) s2 = (out, s')" by blast
    from rr obtain cs where s': "s' = s2\<lparr>calls := calls s2 @ cs\<rparr>"
      by (blast dest: renderRoot_frame)
    have "out = Inr b \<longrightarrow>
            rr_container b = c \<and> rr_baseElement b = resolvedBase opts \<and>
            (rr_container b, rr_root b) \<in> set (mountedRootEntries s')"
    proof
      assume "out = Inr b"
      with rr obtain r where "root = Some r" and "rr_container b = c" and "rr_root b = r"
        and "rr_baseElement b = resolvedBase opts"
        by (auto dest: renderRoot_result)
      with obtainRoot_recorded[of rt ui opts c s1 r s2] ob o2 s'
      show "rr_container b = c \<and> rr_baseElement b = resolvedBase opts \<and>
            (rr_container b, rr_root b) \<in> set (mountedRootEntries s')"
        by simp
    qed
    with d rc s' show ?thesis by auto
  qed
qed

text \<open>
  Claim C5, as the code has it. For every call to \<open>render\<close> that passes the legacy-root
  check: \<open>baseElement\<close>, when omitted, defaults to the container if one was given and to
  \<open>document.body\<close> only when the container is omitted too; \<open>container\<close>, when omitted,
  is a freshly created element appended to the resolved \<open>baseElement\<close>, and when given
  it is used as it is, with no node created and no parent changed.
\<close>

theorem render_defaults:
  assumes "\<not> (opt_legacyRoot opts \<and> \<not> hasLegacyRender rt)"
    and "render rt ui opts s = (out, s')"
  shows "(\<forall>b. out = Inr b \<longrightarrow>
            rr_baseElement b =
              (case opt_baseElement opts of
                 Some e \<Rightarrow> e
               | None \<Rightarrow> (case opt_container opts of Some c \<Rightarrow> c | None \<Rightarrow> body)) \<and>
            rr_container b = (case opt_container opts of Some c \<Rightarrow> c | None \<Rightarrow> nextNode s)) \<and>
         (opt_container opts = None \<longrightarrow>
            nextNode s' = Suc (nextNode s) \<and>
            parentNode s' =
              (parentNode s)(nextNode s \<mapsto>
                 (case opt_baseElement opts of Some e \<Rightarrow> e | None \<Rightarrow> body))) \<and>
         (\<forall>c. opt_container opts = Some c \<longrightarrow>
            nextNode s' = nextNode s \<and> parentNode s' = parentNode s)"
proof -
  note sh = render_shape[OF assms(2) assms(1)]
  have rb: "resolvedBase opts =
              (case opt_baseElement opts of
                 Some e \<Rightarrow> e
               | None \<Rightarrow> (case opt_container opts of Some c \<Rightarrow> c | None \<Rightarrow> body))"
    by (simp add: resolvedBase_def)
  have rcf: "fst (resolveContainer opts s) =
               (case opt_container opts of Some c \<Rightarrow> c | None \<Rightarrow> nextNode s)"
    by (simp add: resolveContainer_def split: option.splits)
  have "\<forall>b. out = Inr b \<longrightarrow>
            rr_baseElement b =
              (case opt_baseElement opts of
                 Some e \<Rightarrow> e
               | None \<Rightarrow> (case opt_container opts of Some c \<Rightarrow> c | None \<Rightarrow> body)) \<and>
            rr_container b = (case opt_container opts of Some c \<Rightarrow> c | None \<Rightarrow> nextNode s)"
    using sh rb rcf by simp
  moreover have "opt_container opts = None \<longrightarrow>
            nextNode s' = Suc (nextNode s) \<and>
            parentNode s' =
              (parentNode s)(nextNode s \<mapsto>
                 (case opt_baseElement opts of Some e \<Rightarrow> e | None \<Rightarrow> body))"
    using sh[of undefined]
    by (cases "opt_container opts"; cases "opt_baseElement opts")
       (simp_all add: resolveContainer_def resolvedBase_def)
  moreover have "\<forall>c. opt_container opts = Some c \<longrightarrow>
            nextNode s' = nextNode s \<and> parentNode s' = parentNode s"
    using sh[of undefined]
    by (cases "opt_container opts") (simp_all add: resolveContainer_def)
  ultimately show ?thesis by blast
qed

theorem render_defaults_witness:
  "\<not> (opt_legacyRoot defaults \<and> \<not> hasLegacyRender quietRuntime) \<and>
   opt_container defaults = None \<and>
   nextNode (snd (render quietRuntime (Ui 0) defaults init)) = Suc (nextNode init) \<and>
   parentNode (snd (render quietRuntime (Ui 0) defaults init)) =
     (parentNode init)(nextNode init \<mapsto> body)"
proof -
  have h1: "\<not> (opt_legacyRoot defaults \<and> \<not> hasLegacyRender quietRuntime)"
    by (simp add: defaults_def)
  have h2: "render quietRuntime (Ui 0) defaults init =
              (fst (render quietRuntime (Ui 0) defaults init),
               snd (render quietRuntime (Ui 0) defaults init))"
    by simp
  have h3: "opt_container defaults = None" "opt_baseElement defaults = None"
    by (simp_all add: defaults_def)
  from render_defaults[OF h1 h2] h3
  have "nextNode (snd (render quietRuntime (Ui 0) defaults init)) = Suc (nextNode init) \<and>
        parentNode (snd (render quietRuntime (Ui 0) defaults init)) =
          (parentNode init)(nextNode init \<mapsto> body)"
    by simp
  with h1 h3 show ?thesis by blast
qed

text \<open>
  The claim as the spec has it fails when a container is passed and \<open>baseElement\<close> is
  not: \<open>baseElement\<close> is then the container, not \<open>document.body\<close>.
\<close>

theorem render_baseElement_counterexample:
  "opt_baseElement (defaults\<lparr>opt_container := Some 2\<rparr>) = None \<and>
   fst (render quietRuntime (Ui 0) (defaults\<lparr>opt_container := Some 2\<rparr>) callerDiv) =
     Inr \<lparr> rr_container = 2, rr_baseElement = 2, rr_root = Root 0 2 (ConcurrentRoot False),
           rr_wrapper = None, rr_queries = None \<rparr> \<and>
   (2 :: node) \<noteq> body"
  by (simp add: run_defs)

section \<open>cleanup\<close>

lemma cleanupEntry_parent:
  assumes "cleanupEntry rt entry s = (Inr v, s')"
  shows "parentNode s' =
           (\<lambda>n. if n = fst entry \<and> parentNode s n = Some body then None else parentNode s n)"
proof -
  obtain o1 s1 where u: "root_unmount rt (snd entry) s = (o1, s1)"
    by (cases "root_unmount rt (snd entry) s")
  then obtain c where s1: "s1 = s\<lparr>calls := calls s @ [c]\<rparr>"
    by (auto dest: root_unmount_frame)
  from assms u have "s' = (if parentNode s1 (fst entry) = Some body
                           then removeChild body (fst entry) s1 else s1)"
    by (cases o1) (simp_all add: cleanupEntry_def)
  with s1 show ?thesis
    by (auto simp: removeChild_def fun_eq_iff)
qed

lemma render_resolved_passed_check:
  "render rt ui opts s = (Inr b, s') \<Longrightarrow> \<not> (opt_legacyRoot opts \<and> \<not> hasLegacyRender rt)"
  by (rule notI) (simp add: render_def)

lemma firstError_None_Cons:
  "firstError (out # outs) = None \<Longrightarrow> (\<exists>v. out = Inr v) \<and> firstError outs = None"
  by (cases out) simp_all



lemma cleanupEntries_parent:
  "cleanupEntries rt es s = (outs, s') \<Longrightarrow> firstError outs = None \<Longrightarrow>
     parentNode s' =
       (\<lambda>n. if n \<in> fst ` set es \<and> parentNode s n = Some body then None else parentNode s n)"
proof (induction es arbitrary: s outs s')
  case Nil
  then show ?case by simp
next
  case (Cons entry es)
  obtain out s1 where e: "cleanupEntry rt entry s = (out, s1)"
    by (cases "cleanupEntry rt entry s")
  obtain outs1 s2 where r: "cleanupEntries rt es s1 = (outs1, s2)"
    by (cases "cleanupEntries rt es s1")
  from Cons.prems(1) e r have eq: "s' = s2" "outs = out # outs1" by simp_all
  with Cons.prems(2) obtain v where ov: "out = Inr v" and f1: "firstError outs1 = None"
    by (auto dest: firstError_None_Cons)
  from e ov have p1: "parentNode s1 =
      (\<lambda>n. if n = fst entry \<and> parentNode s n = Some body then None else parentNode s n)"
    by (simp add: cleanupEntry_parent)
  from Cons.IH[OF r f1] have p2: "parentNode s2 =
      (\<lambda>n. if n \<in> fst ` set es \<and> parentNode s1 n = Some body then None else parentNode s1 n)" .
  show ?case unfolding eq p2 p1 by (auto simp: fun_eq_iff)
qed

section \<open>cleanup on concrete states, and when an unmount throws\<close>

lemma afterDefaultRender_eq:
  "render quietRuntime (Ui 0) defaults init =
     (Inr \<lparr> rr_container = 2, rr_baseElement = 1, rr_root = Root 0 2 (ConcurrentRoot False),
            rr_wrapper = None, rr_queries = None \<rparr>, afterDefaultRender)"
  "afterDefaultRender =
     \<lparr> mountedContainers = {2},
       mountedRootEntries = [(2, Root 0 2 (ConcurrentRoot False))],
       createdRoots = [Root 0 2 (ConcurrentRoot False)],
       parentNode = [1 \<mapsto> 0, 2 \<mapsto> 1], nextNode = 3,
       calls = [CreateRoot 2, RootRender 0 (Ui 0)],
       reactStrictMode = False \<rparr>"
  by (simp_all add: run_defs)

lemma afterRenderIntoCallerDiv_eq:
  "afterRenderIntoCallerDiv =
     \<lparr> mountedContainers = {2},
       mountedRootEntries = [(2, Root 0 2 (ConcurrentRoot False))],
       createdRoots = [Root 0 2 (ConcurrentRoot False)],
       parentNode = [1 \<mapsto> 0, 2 \<mapsto> 1], nextNode = 3,
       calls = [CreateRoot 2, RootRender 0 (Ui 0)],
       reactStrictMode = False \<rparr>"
  by (simp add: run_defs)


lemma cleanup_afterDefaultRender:
  "cleanup quietRuntime afterDefaultRender =
     (Inr (), \<lparr> mountedContainers = {}, mountedRootEntries = [],
       createdRoots = [Root 0 2 (ConcurrentRoot False)],
       parentNode = [1 \<mapsto> 0, 2 \<mapsto> 1](2 := None), nextNode = 3,
       calls = [CreateRoot 2, RootRender 0 (Ui 0), RootUnmount 0],
       reactStrictMode = False \<rparr>)"
  by (simp add: afterDefaultRender_eq(2) cleanup_def cleanupEntry_def root_unmount_def
      invoke_def removeChild_def quietRuntime_def body_def)

text \<open>
  The claim as the spec has it fails for a container that the caller supplied and had
  appended to \<open>document.body\<close> itself: \<open>cleanup\<close> detaches it like one of its own.
\<close>

theorem cleanup_supplied_container_counterexample:
  "opt_container (defaults\<lparr>opt_container := Some 2\<rparr>) = Some 2 \<and>
   parentNode callerDiv 2 = Some body \<and>
   parentNode afterRenderIntoCallerDiv 2 = Some body \<and>
   fst (cleanup quietRuntime afterRenderIntoCallerDiv) = Inr () \<and>
   parentNode (snd (cleanup quietRuntime afterRenderIntoCallerDiv)) 2 = None"
  by (simp add: afterRenderIntoCallerDiv_eq cleanup_def cleanupEntry_def root_unmount_def
      invoke_def removeChild_def quietRuntime_def body_def callerDiv_def createElement_def
      appendChild_def init_def)

lemma cleanupEntry_throws:
  "(cleanupEntry rt entry s = (Inl e, s')) = (root_unmount rt (snd entry) s = (Inl e, s'))"
  by (cases "root_unmount rt (snd entry) s"; cases "fst (root_unmount rt (snd entry) s)")
     (auto simp: cleanupEntry_def)



section \<open>render cut at its await\<close>

lemma renderStart_phases:
  "renderStart rt ui opts s =
     (if opt_legacyRoot opts \<and> \<not> hasLegacyRender rt
      then (Done (Inl (LegacyRootUnsupported legacyRootMessage)), s)
      else (case resolveContainer opts s of (container, s1) \<Rightarrow> startAt rt ui opts container s1))"
proof (cases "opt_container opts")
  case None
  then show ?thesis
    by (cases "opt_baseElement opts")
       (simp_all add: renderStart_def resolveContainer_def resolvedBase_def startAt_def Let_def
          createElement_def appendChild_def cong: prod.case_cong sum.case_cong)
next
  case (Some c)
  then show ?thesis
    by (cases "opt_baseElement opts")
       (simp_all add: renderStart_def resolveContainer_def resolvedBase_def startAt_def Let_def
          cong: prod.case_cong sum.case_cong)
qed

lemma startAt_resume:
  "(case startAt rt ui opts c s of
      (Done out, s2) \<Rightarrow> (out, s2)
    | (Suspended f, s2) \<Rightarrow> renderResume rt f s2) =
   (case obtainRoot rt ui opts c s of
      (Inl e, s2) \<Rightarrow> (Inl e, s2)
    | (Inr root, s2) \<Rightarrow>
        renderRoot rt ui (resolvedBase opts) c (opt_hydrate opts) (opt_queries opts) root
          (opt_wrapper opts) s2)"
proof (cases "c \<in> mountedContainers s")
  case True
  then show ?thesis
    by (simp add: startAt_def obtainRoot_def split: prod.splits)
next
  case False
  obtain o2 s2 where cr: "(if opt_legacyRoot opts then createLegacyRoot c s
                       else createConcurrentRoot rt c (opt_hydrate opts) ui
                              (opt_wrapper opts) s) = (o2, s2)"
    by (cases "(if opt_legacyRoot opts then createLegacyRoot c s
                       else createConcurrentRoot rt c (opt_hydrate opts) ui
                              (opt_wrapper opts) s)")
  show ?thesis
    unfolding startAt_def obtainRoot_def cr using False
    by (cases o2) (simp_all add: renderResume_def)
qed

lemma render_start_resume:
  "render rt ui opts s =
     (case renderStart rt ui opts s of
        (Done out, s1) \<Rightarrow> (out, s1)
      | (Suspended f, s1) \<Rightarrow> renderResume rt f s1)"
proof (cases "opt_legacyRoot opts \<and> \<not> hasLegacyRender rt")
  case True
  then show ?thesis by (simp add: render_phases renderStart_phases)
next
  case False
  obtain c s1 where rc: "resolveContainer opts s = (c, s1)"
    by (cases "resolveContainer opts s")
  have r: "render rt ui opts s =
      (case obtainRoot rt ui opts c s1 of
         (Inl e, s2) \<Rightarrow> (Inl e, s2)
       | (Inr root, s2) \<Rightarrow>
           renderRoot rt ui (resolvedBase opts) c (opt_hydrate opts) (opt_queries opts) root
             (opt_wrapper opts) s2)"
    unfolding render_phases if_not_P[OF False] rc by simp
  have st: "renderStart rt ui opts s = startAt rt ui opts c s1"
    unfolding renderStart_phases if_not_P[OF False] rc by simp
  show ?thesis unfolding r st by (rule startAt_resume[symmetric])
qed

section \<open>What the two halves of render do to the store\<close>

lemma createRoot_cases:
  assumes "(if opt_legacyRoot opts then createLegacyRoot c s
            else createConcurrentRoot rt c (opt_hydrate opts) ui (opt_wrapper opts) s) = (out, s')"
  shows "(\<exists>k call. out = Inl (RuntimeError k) \<and> s' = s\<lparr>calls := calls s @ [call]\<rparr>) \<or>
         (\<exists>impl cs. out = Inr (Root (length (createdRoots s)) c impl) \<and>
            s' = s\<lparr>calls := calls s @ cs,
                   createdRoots := createdRoots s @ [Root (length (createdRoots s)) c impl]\<rparr>)"
proof (cases "opt_legacyRoot opts")
  case True
  with assms have "out = Inr (Root (length (createdRoots s)) c LegacyRoot)"
    and "s' = s\<lparr>calls := calls s @ [],
             createdRoots := createdRoots s @ [Root (length (createdRoots s)) c LegacyRoot]\<rparr>"
    by (auto simp: createLegacyRoot_eq)
  then show ?thesis by blast
next
  case False
  with assms have "createConcurrentRoot rt c (opt_hydrate opts) ui (opt_wrapper opts) s = (out, s')"
    by simp
  from createConcurrentRoot_cases[OF this] show ?thesis by blast
qed

lemma startAt_effect:
  assumes "startAt rt ui opts c s = (p, s')"
  shows "mountedRootEntries s' = mountedRootEntries s \<and>
         mountedContainers s' = mountedContainers s \<and>
         nextNode s' = nextNode s \<and> parentNode s' = parentNode s \<and>
         (case p of
            Done out \<Rightarrow>
              createdRoots s' = createdRoots s \<and>
              (\<forall>b. out = Inr b \<longrightarrow>
                 rr_container b = c \<and> (c, rr_root b) \<in> set (mountedRootEntries s))
          | Suspended f \<Rightarrow>
              f_container f = c \<and> c \<notin> mountedContainers s \<and>
              rootContainer (f_root f) = c \<and>
              createdRoots s' = createdRoots s @ [f_root f])"
proof (cases "c \<in> mountedContainers s")
  case True
  obtain out s2 where rr: "renderRoot rt ui (resolvedBase opts) c (opt_hydrate opts)
                   (opt_queries opts) (findRoot (mountedRootEntries s) c None)
                   (opt_wrapper opts) s = (out, s2)"
    by (cases "renderRoot rt ui (resolvedBase opts) c (opt_hydrate opts)
                   (opt_queries opts) (findRoot (mountedRootEntries s) c None)
                   (opt_wrapper opts) s")
  with assms True have p: "p = Done out" and s': "s' = s2"
    by (simp_all add: startAt_def)
  from rr obtain cs where s2: "s2 = s\<lparr>calls := calls s @ cs\<rparr>"
    by (blast dest: renderRoot_frame)
  have "\<forall>b. out = Inr b \<longrightarrow>
          rr_container b = c \<and> (c, rr_root b) \<in> set (mountedRootEntries s)"
  proof (intro allI impI)
    fix b assume "out = Inr b"
    with rr obtain r where "findRoot (mountedRootEntries s) c None = Some r"
      and "rr_container b = c" and "rr_root b = r"
      by (auto dest: renderRoot_result)
    then show "rr_container b = c \<and> (c, rr_root b) \<in> set (mountedRootEntries s)"
      by (auto dest: findRoot_Some)
  qed
  with p s' s2 show ?thesis by simp
next
  case False
  obtain o2 s2 where cr: "(if opt_legacyRoot opts then createLegacyRoot c s
                       else createConcurrentRoot rt c (opt_hydrate opts) ui
                              (opt_wrapper opts) s) = (o2, s2)"
    by (cases "(if opt_legacyRoot opts then createLegacyRoot c s
                       else createConcurrentRoot rt c (opt_hydrate opts) ui
                              (opt_wrapper opts) s)")
  from createRoot_cases[OF cr] show ?thesis
  proof (elim disjE exE conjE)
    fix k call
    assume "o2 = Inl (RuntimeError k)" and "s2 = s\<lparr>calls := calls s @ [call]\<rparr>"
    with assms False cr show ?thesis by (auto simp: startAt_def)
  next
    fix impl cs
    assume "o2 = Inr (Root (length (createdRoots s)) c impl)"
      and "s2 = s\<lparr>calls := calls s @ cs,
                   createdRoots := createdRoots s @ [Root (length (createdRoots s)) c impl]\<rparr>"
    with assms False cr show ?thesis by (auto simp: startAt_def)
  qed
qed

lemma renderStart_effect:
  assumes "renderStart rt ui opts s = (p, s')"
  shows "mountedRootEntries s' = mountedRootEntries s \<and>
         mountedContainers s' = mountedContainers s \<and>
         (case p of
            Done out \<Rightarrow>
              createdRoots s' = createdRoots s \<and>
              (\<forall>b. out = Inr b \<longrightarrow> (rr_container b, rr_root b) \<in> set (mountedRootEntries s))
          | Suspended f \<Rightarrow>
              f_container f = renderTarget opts s \<and> f_container f \<notin> mountedContainers s \<and>
              rootContainer (f_root f) = f_container f \<and>
              createdRoots s' = createdRoots s @ [f_root f])"
proof (cases "opt_legacyRoot opts \<and> \<not> hasLegacyRender rt")
  case True
  with assms show ?thesis by (auto simp: renderStart_phases)
next
  case False
  obtain c s1 where rc: "resolveContainer opts s = (c, s1)"
    by (cases "resolveContainer opts s")
  from assms have sa: "startAt rt ui opts c s1 = (p, s')"
    unfolding renderStart_phases if_not_P[OF False] rc by simp
  from rc have c: "c = renderTarget opts s"
    by (auto simp: resolveContainer_def renderTarget_def split: option.splits)
  note e = startAt_effect[OF sa] resolveContainer_store[OF rc]
  show ?thesis
  proof (cases p)
    case (Done out)
    with e show ?thesis by auto
  next
    case (Suspended f)
    with e c show ?thesis by auto
  qed
qed

lemma renderResume_effect:
  assumes "renderResume rt f s = (out, s')"
  shows "mountedRootEntries s' = mountedRootEntries s @ [(f_container f, f_root f)] \<and>
         mountedContainers s' = insert (f_container f) (mountedContainers s) \<and>
         createdRoots s' = createdRoots s \<and>
         nextNode s' = nextNode s \<and> parentNode s' = parentNode s \<and>
         (\<forall>b. out = Inr b \<longrightarrow> rr_container b = f_container f \<and> rr_root b = f_root f)"
proof -
  from assms obtain cs where
    "s' = s\<lparr>mountedRootEntries := mountedRootEntries s @ [(f_container f, f_root f)],
            mountedContainers := insert (f_container f) (mountedContainers s),
            calls := calls s @ cs\<rparr>"
    unfolding renderResume_def by (auto dest!: renderRoot_frame)
  moreover from assms have
    "\<forall>b. out = Inr b \<longrightarrow> rr_container b = f_container f \<and> rr_root b = f_root f"
    unfolding renderResume_def by (auto dest: renderRoot_result)
  ultimately show ?thesis by simp
qed

text \<open>An awaited render, from the two halves.\<close>

lemma render_effect:
  assumes "render rt ui opts s = (out, s')"
  shows "((mountedRootEntries s' = mountedRootEntries s \<and>
           mountedContainers s' = mountedContainers s \<and>
           createdRoots s' = createdRoots s) \<or>
          (\<exists>r. renderTarget opts s \<notin> mountedContainers s \<and>
             rootContainer r = renderTarget opts s \<and>
             mountedRootEntries s' = mountedRootEntries s @ [(renderTarget opts s, r)] \<and>
             mountedContainers s' = insert (renderTarget opts s) (mountedContainers s) \<and>
             createdRoots s' = createdRoots s @ [r])) \<and>
         (\<forall>b. out = Inr b \<longrightarrow> (rr_container b, rr_root b) \<in> set (mountedRootEntries s'))"
proof -
  obtain p s1 where rs: "renderStart rt ui opts s = (p, s1)"
    by (cases "renderStart rt ui opts s")
  note e1 = renderStart_effect[OF rs]
  show ?thesis
  proof (cases p)
    case (Done o1)
    with assms rs have "out = o1" and "s' = s1"
      by (simp_all add: render_start_resume)
    with e1 Done show ?thesis by auto
  next
    case (Suspended f)
    with assms rs have rr: "renderResume rt f s1 = (out, s')"
      by (simp add: render_start_resume)
    note e2 = renderResume_effect[OF rr]
    from e1 Suspended have a: "mountedRootEntries s1 = mountedRootEntries s"
      "mountedContainers s1 = mountedContainers s"
      "f_container f = renderTarget opts s" "f_container f \<notin> mountedContainers s"
      "rootContainer (f_root f) = f_container f" "createdRoots s1 = createdRoots s @ [f_root f]"
      by auto
    from e2 have b: "mountedRootEntries s' = mountedRootEntries s1 @ [(f_container f, f_root f)]"
      "mountedContainers s' = insert (f_container f) (mountedContainers s1)"
      "createdRoots s' = createdRoots s1"
      "\<forall>b. out = Inr b \<longrightarrow> rr_container b = f_container f \<and> rr_root b = f_root f"
      by auto
    have "\<exists>r. renderTarget opts s \<notin> mountedContainers s \<and>
             rootContainer r = renderTarget opts s \<and>
             mountedRootEntries s' = mountedRootEntries s @ [(renderTarget opts s, r)] \<and>
             mountedContainers s' = insert (renderTarget opts s) (mountedContainers s) \<and>
             createdRoots s' = createdRoots s @ [r]"
      using a b by (intro exI[of _ "f_root f"]) simp
    moreover have "\<forall>b. out = Inr b \<longrightarrow> (rr_container b, rr_root b) \<in> set (mountedRootEntries s')"
      using b by auto
    ultimately show ?thesis by blast
  qed
qed

section \<open>Schedules without overlap keep the store consistent\<close>

lemma cleanup_effect:
  assumes "cleanup rt s = (out, s')"
  shows "createdRoots s' = createdRoots s \<and>
         ((mountedRootEntries s' = mountedRootEntries s \<and>
           mountedContainers s' = mountedContainers s) \<or>
          (mountedRootEntries s' = [] \<and> mountedContainers s' = {}))"
proof -
  obtain outs s1 where r: "cleanupEntries rt (mountedRootEntries s) s = (outs, s1)"
    by (cases "cleanupEntries rt (mountedRootEntries s) s")
  note f = cleanupEntries_frame[OF r]
  show ?thesis
  proof (cases "firstError outs")
    case None
    with assms r have "s' = s1\<lparr>mountedRootEntries := [], mountedContainers := {}\<rparr>"
      by (simp add: cleanup_def)
    with f show ?thesis by simp
  next
    case (Some e)
    with assms r have "s' = s1" by (simp add: cleanup_def)
    with f show ?thesis by simp
  qed
qed

lemma store_step_same:
  assumes "mountedRootEntries s' = mountedRootEntries s"
    and "mountedContainers s' = mountedContainers s" and "createdRoots s' = createdRoots s"
  shows "store_step target s s'"
  using assms by (simp add: store_step_def)

lemma store_step_calls: "store_step target s (s\<lparr>calls := cs\<rparr>)"
  by (simp add: store_step_def)

lemma render_store_step:
  assumes "render rt ui opts s = (out, s')"
  shows "store_step (Some (renderTarget opts s)) s s'"
proof -
  from render_effect[OF assms] have
    "(mountedRootEntries s' = mountedRootEntries s \<and>
      mountedContainers s' = mountedContainers s \<and>
      createdRoots s' = createdRoots s) \<or>
     (\<exists>r. renderTarget opts s \<notin> mountedContainers s \<and>
        rootContainer r = renderTarget opts s \<and>
        mountedRootEntries s' = mountedRootEntries s @ [(renderTarget opts s, r)] \<and>
        mountedContainers s' = insert (renderTarget opts s) (mountedContainers s) \<and>
        createdRoots s' = createdRoots s @ [r])"
    by (rule conjunct1)
  then show ?thesis
  proof
    assume "mountedRootEntries s' = mountedRootEntries s \<and>
      mountedContainers s' = mountedContainers s \<and>
      createdRoots s' = createdRoots s"
    then show ?thesis by (simp add: store_step_def)
  next
    assume "\<exists>r. renderTarget opts s \<notin> mountedContainers s \<and>
        rootContainer r = renderTarget opts s \<and>
        mountedRootEntries s' = mountedRootEntries s @ [(renderTarget opts s, r)] \<and>
        mountedContainers s' = insert (renderTarget opts s) (mountedContainers s) \<and>
        createdRoots s' = createdRoots s @ [r]"
    then obtain r where "renderTarget opts s \<notin> mountedContainers s \<and>
        rootContainer r = renderTarget opts s \<and>
        mountedRootEntries s' = mountedRootEntries s @ [(renderTarget opts s, r)] \<and>
        mountedContainers s' = insert (renderTarget opts s) (mountedContainers s) \<and>
        createdRoots s' = createdRoots s @ [r]" ..
    then have "\<exists>c r. Some (renderTarget opts s) = Some c \<and> c \<notin> mountedContainers s \<and>
        rootContainer r = c \<and>
        mountedRootEntries s' = mountedRootEntries s @ [(c, r)] \<and>
        mountedContainers s' = insert c (mountedContainers s) \<and>
        createdRoots s' = createdRoots s @ [r]"
      by (intro exI[of _ "renderTarget opts s"] exI[of _ r]) simp
    then show ?thesis unfolding store_step_def by (rule disjI2)
  qed
qed

lemma render_bundle_recorded:
  assumes "render rt ui opts s = (Inr b, s')"
  shows "(rr_container b, rr_root b) \<in> set (mountedRootEntries s')"
  using render_effect[OF assms, THEN conjunct2] by simp

lemma renderHook_store_step:
  assumes "renderHook rt cb options s = (out, s')"
  shows "store_step (Some (renderTarget (renderOptions options) s)) s s'"
    and "out = Inr h \<Longrightarrow>
           (rr_container (hr_base h), rr_root (hr_base h)) \<in> set (mountedRootEntries s')"
proof -
  have "store_step (Some (renderTarget (renderOptions options) s)) s s' \<and>
        (out = Inr h \<longrightarrow>
           (rr_container (hr_base h), rr_root (hr_base h)) \<in> set (mountedRootEntries s'))"
  proof (cases "opt_legacyRoot (renderOptions options) \<and> \<not> hasLegacyRender rt")
    case True
    with assms have "s' = s" and "out \<noteq> Inr h" by (auto simp: renderHook_def)
    then show ?thesis by (simp add: store_step_def)
  next
    case False
    obtain o1 s1 where r: "render rt (CreateElement (TestComponent cb)
         (RenderCallbackProps (initialProps options)) []) (renderOptions options) s = (o1, s1)"
      by (cases "render rt (CreateElement (TestComponent cb)
         (RenderCallbackProps (initialProps options)) []) (renderOptions options) s")
    from assms False r have s': "s' = s1"
      by (cases o1) (simp_all add: renderHook_def)
    have "out = Inr h \<longrightarrow>
           (rr_container (hr_base h), rr_root (hr_base h)) \<in> set (mountedRootEntries s')"
    proof
      assume "out = Inr h"
      with assms False r have "o1 = Inr (hr_base h)"
        by (cases o1) (auto simp: renderHook_def)
      with r s' show "(rr_container (hr_base h), rr_root (hr_base h)) \<in> set (mountedRootEntries s')"
        by (simp add: render_bundle_recorded)
    qed
    with render_store_step[OF r] s' show ?thesis by simp
  qed
  then show "store_step (Some (renderTarget (renderOptions options) s)) s s'"
    and "out = Inr h \<Longrightarrow>
           (rr_container (hr_base h), rr_root (hr_base h)) \<in> set (mountedRootEntries s')"
    by simp_all
qed

text \<open>
  An awaited call other than \<open>cleanup\<close> leaves the store and the roots alone, or records
  one new root for the container the call is for.
\<close>

lemma step_effect:
  assumes "step rt x s = (out, s')" and "x \<noteq> Cleanup"
  shows "store_step (eventTarget (Await x) s) s s'"
    and "bundleOf (Settled out) = Some b \<Longrightarrow>
           (rr_container b, rr_root b) \<in> set (mountedRootEntries s')"
proof -
  have "store_step (eventTarget (Await x) s) s s' \<and>
        (bundleOf (Settled out) = Some b \<longrightarrow>
           (rr_container b, rr_root b) \<in> set (mountedRootEntries s'))"
  proof (cases x)
    case (Render ui opts)
    obtain o1 s1 where r: "render rt ui opts s = (o1, s1)" by (cases "render rt ui opts s")
    from assms(1) Render r have s': "s' = s1" by (cases o1) simp_all
    have "bundleOf (Settled out) = Some b \<longrightarrow>
           (rr_container b, rr_root b) \<in> set (mountedRootEntries s')"
    proof
      assume "bundleOf (Settled out) = Some b"
      with assms(1) Render r have "o1 = Inr b" by (cases o1) auto
      with r s' show "(rr_container b, rr_root b) \<in> set (mountedRootEntries s')"
        by (simp add: render_bundle_recorded)
    qed
    with render_store_step[OF r] s' Render show ?thesis by simp
  next
    case (RenderHook cb options)
    obtain o1 s1 where r: "renderHook rt cb options s = (o1, s1)"
      by (cases "renderHook rt cb options s")
    from assms(1) RenderHook r have s': "s' = s1" by (cases o1) simp_all
    have "bundleOf (Settled out) = Some b \<longrightarrow>
           (rr_container b, rr_root b) \<in> set (mountedRootEntries s')"
    proof
      assume "bundleOf (Settled out) = Some b"
      with assms(1) RenderHook r obtain h where "o1 = Inr h" and "b = hr_base h"
        by (cases o1) auto
      with renderHook_store_step(2)[OF r, of h] s'
      show "(rr_container b, rr_root b) \<in> set (mountedRootEntries s')" by simp
    qed
    with renderHook_store_step(1)[OF r] s' RenderHook show ?thesis by simp
  next
    case (Rerender b' ui)
    with assms(1) have rr: "rerender rt b' ui s = (out, s')" by simp
    then obtain cs where "s' = s\<lparr>calls := calls s @ cs\<rparr>"
      by (auto dest: rerender_frame)
    moreover from rr have "bundleOf (Settled out) = None"
      by (cases out) (auto dest: rerender_value)
    ultimately show ?thesis by (simp add: store_step_calls)
  next
    case (HookRerender h p)
    with assms(1) have rr: "rerender rt (hr_base h) (CreateElement (TestComponent (hr_callback h))
            (RenderCallbackProps p) []) s = (out, s')" by (simp add: hookRerender_def)
    then obtain cs where "s' = s\<lparr>calls := calls s @ cs\<rparr>"
      by (auto dest: rerender_frame)
    moreover from rr have "bundleOf (Settled out) = None"
      by (cases out) (auto dest: rerender_value)
    ultimately show ?thesis by (simp add: store_step_calls)
  next
    case (Unmount b')
    obtain o1 s1 where r: "unmount rt b' s = (o1, s1)" by (cases "unmount rt b' s")
    then obtain c where "s1 = s\<lparr>calls := calls s @ [c]\<rparr>"
      by (auto simp: unmount_def dest: root_unmount_frame)
    moreover from assms(1) Unmount r have "s' = s1 \<and> bundleOf (Settled out) = None"
      by (cases o1) auto
    ultimately show ?thesis by (simp add: store_step_calls)
  next
    case Cleanup
    with assms(2) show ?thesis by simp
  next
    case (Configure v)
    with assms(1) have "s' = s\<lparr>reactStrictMode := v\<rparr>" and "out = Inr Undefined"
      by (simp_all add: configure_def)
    then show ?thesis by (simp add: store_step_def)
  qed
  then show "store_step (eventTarget (Await x) s) s s'"
    and "bundleOf (Settled out) = Some b \<Longrightarrow>
           (rr_container b, rr_root b) \<in> set (mountedRootEntries s')"
    by simp_all
qed

lemma sched_inv_record:
  assumes "sched_inv \<lparr> st = s, inflight = fs \<rparr>"
    and "c \<notin> f_container ` set fs" and "c \<notin> mountedContainers s"
    and "mountedRootEntries s' = mountedRootEntries s @ [(c, r)]"
    and "mountedContainers s' = insert c (mountedContainers s)"
  shows "sched_inv \<lparr> st = s', inflight = fs \<rparr>"
  using assms unfolding sched_inv_def by auto

lemma sched_inv_same:
  assumes "sched_inv \<lparr> st = s, inflight = fs \<rparr>"
    and "mountedRootEntries s' = mountedRootEntries s"
    and "mountedContainers s' = mountedContainers s"
  shows "sched_inv \<lparr> st = s', inflight = fs \<rparr>"
  using assms unfolding sched_inv_def by auto

lemma sched_inv_cleared:
  assumes "sched_inv \<lparr> st = s, inflight = fs \<rparr>"
    and "mountedRootEntries s' = []" and "mountedContainers s' = {}"
  shows "sched_inv \<lparr> st = s', inflight = fs \<rparr>"
  using assms unfolding sched_inv_def by auto

lemma sched_inv_suspend:
  assumes "sched_inv \<lparr> st = s, inflight = fs \<rparr>"
    and "f_container f \<notin> f_container ` set fs" and "f_container f \<notin> mountedContainers s"
    and "mountedRootEntries s' = mountedRootEntries s"
    and "mountedContainers s' = mountedContainers s"
  shows "sched_inv \<lparr> st = s', inflight = fs @ [f] \<rparr>"
  using assms unfolding sched_inv_def by auto

lemma sched_inv_resume:
  assumes "sched_inv \<lparr> st = s, inflight = xs @ f # ys \<rparr>"
    and "mountedRootEntries s' = mountedRootEntries s @ [(f_container f, f_root f)]"
    and "mountedContainers s' = insert (f_container f) (mountedContainers s)"
  shows "sched_inv \<lparr> st = s', inflight = xs @ ys \<rparr>"
  using assms unfolding sched_inv_def by auto

lemma sched_eq: "sc = \<lparr> st = st sc, inflight = inflight sc \<rparr>"
  by simp

lemma fire_sched_inv:
  assumes "fire rt ev sc = (r, sc')" and "sched_inv sc" and "\<not> clash ev sc"
  shows "sched_inv sc'"
proof (cases ev)
  case (Await x)
  obtain out s1 where stp: "step rt x (st sc) = (out, s1)" by (cases "step rt x (st sc)")
  with assms(1) Await have sc': "sc' = \<lparr> st = s1, inflight = inflight sc \<rparr>" by auto
  from assms(2) have inv: "sched_inv \<lparr> st = st sc, inflight = inflight sc \<rparr>" by (cases sc) simp
  show ?thesis
  proof (cases "x = Cleanup")
    case True
    with stp obtain o1 where "cleanup rt (st sc) = (o1, s1)"
      by (cases "cleanup rt (st sc)"; cases "fst (cleanup rt (st sc))") auto
    from cleanup_effect[OF this] inv show ?thesis unfolding sc'
      by (auto intro: sched_inv_same sched_inv_cleared)
  next
    case False
    from step_effect(1)[OF stp False] have
      "(mountedRootEntries s1 = mountedRootEntries (st sc) \<and>
        mountedContainers s1 = mountedContainers (st sc)) \<or>
       (\<exists>c r. eventTarget (Await x) (st sc) = Some c \<and> c \<notin> mountedContainers (st sc) \<and>
             mountedRootEntries s1 = mountedRootEntries (st sc) @ [(c, r)] \<and>
             mountedContainers s1 = insert c (mountedContainers (st sc)))"
      unfolding store_step_def by blast
    then show ?thesis
    proof (elim disjE exE conjE)
      assume "mountedRootEntries s1 = mountedRootEntries (st sc)"
        and "mountedContainers s1 = mountedContainers (st sc)"
      with inv show ?thesis unfolding sc' by (rule sched_inv_same)
    next
      fix c r0
      assume t: "eventTarget (Await x) (st sc) = Some c" and nc: "c \<notin> mountedContainers (st sc)"
        and e: "mountedRootEntries s1 = mountedRootEntries (st sc) @ [(c, r0)]"
        and m: "mountedContainers s1 = insert c (mountedContainers (st sc))"
      from assms(3) Await t have "c \<notin> f_container ` set (inflight sc)"
        by (simp add: clash_def)
      from sched_inv_record[OF inv this nc e m] show ?thesis unfolding sc' .
    qed
  qed
next
  case (Issue ui opts)
  obtain p s1 where rs: "renderStart rt ui opts (st sc) = (p, s1)"
    by (cases "renderStart rt ui opts (st sc)")
  note e = renderStart_effect[OF rs]
  from assms(2) have inv: "sched_inv \<lparr> st = st sc, inflight = inflight sc \<rparr>"
    by (cases sc) simp
  show ?thesis
  proof (cases p)
    case (Done out)
    with assms(1) Issue rs have sc': "sc' = \<lparr> st = s1, inflight = inflight sc \<rparr>" by auto
    from e inv show ?thesis unfolding sc' by (auto intro: sched_inv_same)
  next
    case (Suspended f)
    with assms(1) Issue rs have sc': "sc' = \<lparr> st = s1, inflight = inflight sc @ [f] \<rparr>" by auto
    from e Suspended have a: "f_container f = renderTarget opts (st sc)"
      "f_container f \<notin> mountedContainers (st sc)"
      "mountedRootEntries s1 = mountedRootEntries (st sc)"
      "mountedContainers s1 = mountedContainers (st sc)" by auto
    from assms(3) Issue a(1) have "f_container f \<notin> f_container ` set (inflight sc)"
      by (simp add: clash_def)
    from sched_inv_suspend[OF inv this a(2) a(3) a(4)] show ?thesis unfolding sc' .
  qed
next
  case (Continue i)
  show ?thesis
  proof (cases "i < length (inflight sc)")
    case False
    with assms(1,2) Continue show ?thesis by auto
  next
    case True
    obtain out s1 where rr: "renderResume rt (inflight sc ! i) (st sc) = (out, s1)"
      by (cases "renderResume rt (inflight sc ! i) (st sc)")
    with assms(1) Continue True have sc':
      "sc' = \<lparr> st = s1, inflight = take i (inflight sc) @ drop (Suc i) (inflight sc) \<rparr>"
      by auto
    from True have fs: "inflight sc =
        take i (inflight sc) @ (inflight sc ! i) # drop (Suc i) (inflight sc)"
      by (rule id_take_nth_drop)
    from assms(2) have "sched_inv \<lparr> st = st sc, inflight = inflight sc \<rparr>"
      by (cases sc) simp
    with fs have inv: "sched_inv \<lparr> st = st sc,
        inflight = take i (inflight sc) @ (inflight sc ! i) # drop (Suc i) (inflight sc) \<rparr>"
      by simp
    from renderResume_effect[OF rr] have
      "mountedRootEntries s1 =
         mountedRootEntries (st sc) @ [(f_container (inflight sc ! i), f_root (inflight sc ! i))]"
      "mountedContainers s1 = insert (f_container (inflight sc ! i)) (mountedContainers (st sc))"
      by auto
    from sched_inv_resume[OF inv this] show ?thesis unfolding sc' .
  qed
qed

lemma exec_sched_inv:
  "exec rt evs sc = (rs, sc') \<Longrightarrow> sched_inv sc \<Longrightarrow> noOverlap rt evs sc \<Longrightarrow> sched_inv sc'"
proof (induction evs arbitrary: sc rs sc')
  case Nil
  then show ?case by simp
next
  case (Cons ev evs)
  obtain r sc1 where f: "fire rt ev sc = (r, sc1)" by (cases "fire rt ev sc")
  obtain rs1 sc2 where e: "exec rt evs sc1 = (rs1, sc2)" by (cases "exec rt evs sc1")
  from Cons.prems(3) f have nc: "\<not> clash ev sc" and no: "noOverlap rt evs sc1" by simp_all
  from f Cons.prems(2) nc have "sched_inv sc1" by (rule fire_sched_inv)
  with e have "sched_inv sc2" using no by (rule Cons.IH)
  moreover from Cons.prems(1) f e have "sc' = sc2" by simp
  ultimately show ?case by simp
qed

section \<open>Schedules on concrete pages\<close>

lemma interleavedRenders_exec:
  "exec quietRuntime interleavedRenders start =
     ([Pending, Pending,
       Settled (Inr (RenderResult \<lparr> rr_container = 3, rr_baseElement = 1,
              rr_root = Root 1 3 (ConcurrentRoot False), rr_wrapper = None,
              rr_queries = None \<rparr>)),
       Settled (Inr (RenderResult \<lparr> rr_container = 2, rr_baseElement = 1,
              rr_root = Root 0 2 (ConcurrentRoot False), rr_wrapper = None,
              rr_queries = None \<rparr>)),
       Settled (Inr (RenderResult \<lparr> rr_container = 2, rr_baseElement = 2,
              rr_root = Root 0 2 (ConcurrentRoot False), rr_wrapper = None,
              rr_queries = None \<rparr>))],
      \<lparr> st = \<lparr> mountedContainers = {2, 3},
               mountedRootEntries = [(3, Root 1 3 (ConcurrentRoot False)),
                                     (2, Root 0 2 (ConcurrentRoot False))],
               createdRoots = [Root 0 2 (ConcurrentRoot False), Root 1 3 (ConcurrentRoot False)],
               parentNode = [1 \<mapsto> 0, 2 \<mapsto> 1, 3 \<mapsto> 1], nextNode = 4,
               calls = [CreateRoot 2, CreateRoot 3, RootRender 1 (Ui 1), RootRender 0 (Ui 0),
                        RootRender 0 (Ui 2)],
               reactStrictMode = False \<rparr>,
        inflight = [] \<rparr>)"
  by (simp add: interleavedRenders_def run_defs insert_commute)

lemma interleavedRenders_noOverlap:
  "noOverlap quietRuntime interleavedRenders start"
  by (simp add: interleavedRenders_def run_defs)

lemma overlappingRenders_exec:
  "exec quietRuntime overlappingRenders onCallerDiv =
     ([Pending, Pending,
       Settled (Inr (RenderResult \<lparr> rr_container = 2, rr_baseElement = 2,
              rr_root = Root 0 2 (ConcurrentRoot False), rr_wrapper = None,
              rr_queries = None \<rparr>)),
       Settled (Inr (RenderResult \<lparr> rr_container = 2, rr_baseElement = 2,
              rr_root = Root 1 2 (ConcurrentRoot False), rr_wrapper = None,
              rr_queries = None \<rparr>))],
      \<lparr> st = \<lparr> mountedContainers = {2},
               mountedRootEntries = [(2, Root 0 2 (ConcurrentRoot False)),
                                     (2, Root 1 2 (ConcurrentRoot False))],
               createdRoots = [Root 0 2 (ConcurrentRoot False), Root 1 2 (ConcurrentRoot False)],
               parentNode = [1 \<mapsto> 0, 2 \<mapsto> 1], nextNode = 3,
               calls = [CreateRoot 2, CreateRoot 2, RootRender 0 (Ui 0), RootRender 1 (Ui 1)],
               reactStrictMode = False \<rparr>,
        inflight = [] \<rparr>)"
  by (simp add: overlappingRenders_def run_defs)

lemma sched_inv_store_inv: "sched_inv sc \<Longrightarrow> store_inv (st sc)"
  by (simp add: sched_inv_def store_inv_def)

text \<open>
  Claim C8, as the code has it. From an empty store, with whatever page, the container
  set and the entry sequence are in bijection after every event of every schedule in
  which no \<open>render\<close> is started for a container while another \<open>render\<close> for that
  container is suspended at its \<open>await\<close>; every sequence of awaited calls is such a
  schedule. No container then has two entries, and the set holds exactly the containers
  of the entries.
\<close>

theorem store_bijection:
  assumes "mountedRootEntries s0 = []" and "mountedContainers s0 = {}"
    and "noOverlap rt evs \<lparr> st = s0, inflight = [] \<rparr>"
  shows "store_inv (st (snd (exec rt evs \<lparr> st = s0, inflight = [] \<rparr>)))"
proof -
  from assms(1,2) have "sched_inv \<lparr> st = s0, inflight = [] \<rparr>"
    by (simp add: sched_inv_def)
  with exec_sched_inv[of rt evs "\<lparr> st = s0, inflight = [] \<rparr>"
      "fst (exec rt evs \<lparr> st = s0, inflight = [] \<rparr>)"
      "snd (exec rt evs \<lparr> st = s0, inflight = [] \<rparr>)"] assms(3)
  have "sched_inv (snd (exec rt evs \<lparr> st = s0, inflight = [] \<rparr>))" by simp
  then show ?thesis by (rule sched_inv_store_inv)
qed

theorem store_bijection_witness:
  "mountedRootEntries init = [] \<and> mountedContainers init = {} \<and>
   noOverlap quietRuntime interleavedRenders \<lparr> st = init, inflight = [] \<rparr> \<and>
   store_inv (st (snd (exec quietRuntime interleavedRenders \<lparr> st = init, inflight = [] \<rparr>))) \<and>
   mountedRootEntries (st (snd (exec quietRuntime interleavedRenders
       \<lparr> st = init, inflight = [] \<rparr>))) =
     [(3, Root 1 3 (ConcurrentRoot False)), (2, Root 0 2 (ConcurrentRoot False))]"
proof -
  have h1: "mountedRootEntries init = []" and h2: "mountedContainers init = {}"
    by (simp_all add: init_def)
  have h3: "noOverlap quietRuntime interleavedRenders \<lparr> st = init, inflight = [] \<rparr>"
    using interleavedRenders_noOverlap by (simp add: start_def)
  have e: "mountedRootEntries (st (snd (exec quietRuntime interleavedRenders
       \<lparr> st = init, inflight = [] \<rparr>))) =
     [(3, Root 1 3 (ConcurrentRoot False)), (2, Root 0 2 (ConcurrentRoot False))]"
    using interleavedRenders_exec by (simp add: start_def)
  from store_bijection[OF h1 h2 h3] h1 h2 h3 e show ?thesis by blast
qed

text \<open>
  Without that condition the claim fails: two renders into the caller's div, the second
  started before the first has recorded its root, both resolve and leave two entries for
  the one container.
\<close>

theorem store_bijection_counterexample:
  "fst (exec quietRuntime overlappingRenders onCallerDiv) =
     [Pending, Pending,
      Settled (Inr (RenderResult \<lparr> rr_container = 2, rr_baseElement = 2,
             rr_root = Root 0 2 (ConcurrentRoot False), rr_wrapper = None,
             rr_queries = None \<rparr>)),
      Settled (Inr (RenderResult \<lparr> rr_container = 2, rr_baseElement = 2,
             rr_root = Root 1 2 (ConcurrentRoot False), rr_wrapper = None,
             rr_queries = None \<rparr>))] \<and>
   mountedContainers (st (snd (exec quietRuntime overlappingRenders onCallerDiv))) = {2} \<and>
   mountedRootEntries (st (snd (exec quietRuntime overlappingRenders onCallerDiv))) =
     [(2, Root 0 2 (ConcurrentRoot False)), (2, Root 1 2 (ConcurrentRoot False))] \<and>
   \<not> store_inv (st (snd (exec quietRuntime overlappingRenders onCallerDiv)))"
  by (simp add: overlappingRenders_exec store_inv_def)

section \<open>One root per container\<close>






section \<open>The roots along a schedule\<close>




section \<open>Reusing the recorded root, recording a new one\<close>

lemma findRoot_recorded:
  assumes "distinct (map fst es)" and "(c, r) \<in> set es"
  shows "findRoot es c None = Some r"
proof -
  from assms(2) have "c \<in> fst ` set es" by force
  from findRoot_found[OF this, of None] obtain r' where f: "findRoot es c None = Some r'" ..
  then have "(c, r') \<in> set es" by (auto dest: findRoot_Some)
  with assms have "r' = r" by (auto dest: eq_key_imp_eq_value)
  with f show ?thesis by simp
qed

lemma render_reuses_recorded:
  assumes "store_inv s" and "(c, r) \<in> set (mountedRootEntries s)"
    and "opt_container opts = Some c"
    and "\<not> (opt_legacyRoot opts \<and> \<not> hasLegacyRender rt)"
  shows "render rt ui opts s =
           renderRoot rt ui (resolvedBase opts) c (opt_hydrate opts) (opt_queries opts)
             (Some r) (opt_wrapper opts) s"
proof -
  from assms(1,2) have m: "c \<in> mountedContainers s"
    and f: "findRoot (mountedRootEntries s) c None = Some r"
    by (force simp: store_inv_def, simp add: store_inv_def findRoot_recorded)
  from assms(3) have rc: "resolveContainer opts s = (c, s)"
    by (simp add: resolveContainer_def)
  from m f have ob: "obtainRoot rt ui opts c s = (Inr (Some r), s)"
    by (simp add: obtainRoot_def)
  show ?thesis
    unfolding render_phases if_not_P[OF assms(4)] rc by (simp add: ob)
qed






section \<open>Decoration of the UI\<close>

lemma renderRoot_render_calls:
  "calls (snd (renderRoot rt ui b c False q (Some r) w s)) =
     calls s @ [renderCall r (strictModeIfNeeded s (wrapUiIfNeeded ui w))]"
  by (cases "rootImpl r")
     (auto simp: renderRoot_def root_render_def invoke_def renderCall_def split: option.splits)

lemma renderRoot_hydrate_calls:
  "calls (snd (renderRoot rt ui b c True q (Some (Root i c' LegacyRoot)) w s)) =
     calls s @ [LegacyHydrate (strictModeIfNeeded s (wrapUiIfNeeded ui w)) c']"
  "calls (snd (renderRoot rt ui b c True q (Some (Root i c' (ConcurrentRoot h))) w s)) = calls s"
  by (auto simp: renderRoot_def root_hydrate_def invoke_def split: option.splits)

lemma render_first_mount_calls:
  assumes "opt_container opts = Some c" and "c \<notin> mountedContainers s"
    and "\<not> opt_legacyRoot opts" and "\<not> opt_hydrate opts"
    and "outcome rt (calls s) (CreateRoot c) = None"
  shows "calls (snd (render rt ui opts s)) =
           calls s @ [CreateRoot c,
                      RootRender (length (createdRoots s))
                        (strictModeIfNeeded s (wrapUiIfNeeded ui (opt_wrapper opts)))]"
proof -
  from assms(1) have rc: "resolveContainer opts s = (c, s)"
    by (simp add: resolveContainer_def)
  from assms(3) have ok: "\<not> (opt_legacyRoot opts \<and> \<not> hasLegacyRender rt)" by simp
  have cr: "createConcurrentRoot rt c (opt_hydrate opts) ui (opt_wrapper opts) s =
      (Inr (Root (length (createdRoots s)) c (ConcurrentRoot False)),
       s\<lparr>calls := calls s @ [CreateRoot c],
         createdRoots := createdRoots s @ [Root (length (createdRoots s)) c (ConcurrentRoot False)]\<rparr>)"
    using assms(4,5) by (simp add: createConcurrentRoot_def invoke_def newRoot_def Let_def)
  have st: "renderStart rt ui opts s =
      (Suspended \<lparr> f_ui = ui, f_baseElement = resolvedBase opts, f_container = c,
                   f_hydrate = opt_hydrate opts, f_queries = opt_queries opts,
                   f_wrapper = opt_wrapper opts,
                   f_root = Root (length (createdRoots s)) c (ConcurrentRoot False) \<rparr>,
       s\<lparr>calls := calls s @ [CreateRoot c],
         createdRoots := createdRoots s @ [Root (length (createdRoots s)) c (ConcurrentRoot False)]\<rparr>)"
    unfolding renderStart_phases if_not_P[OF ok] rc
    using assms(2,3) by (simp add: startAt_def cr)
  show ?thesis
    using assms(4)
    by (simp add: render_start_resume st renderResume_def renderRoot_render_calls renderCall_def
        strictModeIfNeeded_def)
qed

lemma render_first_hydrate_calls:
  assumes "opt_container opts = Some c" and "c \<notin> mountedContainers s"
    and "\<not> opt_legacyRoot opts" and "opt_hydrate opts"
    and "outcome rt (calls s)
           (HydrateRoot c (strictModeIfNeeded s (wrapUiIfNeeded ui (opt_wrapper opts)))) = None"
  shows "calls (snd (render rt ui opts s)) =
           calls s @ [HydrateRoot c (strictModeIfNeeded s (wrapUiIfNeeded ui (opt_wrapper opts)))]"
proof -
  from assms(1) have rc: "resolveContainer opts s = (c, s)"
    by (simp add: resolveContainer_def)
  from assms(3) have ok: "\<not> (opt_legacyRoot opts \<and> \<not> hasLegacyRender rt)" by simp
  have cr: "createConcurrentRoot rt c (opt_hydrate opts) ui (opt_wrapper opts) s =
      (Inr (Root (length (createdRoots s)) c (ConcurrentRoot True)),
       s\<lparr>calls := calls s @
            [HydrateRoot c (strictModeIfNeeded s (wrapUiIfNeeded ui (opt_wrapper opts)))],
         createdRoots := createdRoots s @ [Root (length (createdRoots s)) c (ConcurrentRoot True)]\<rparr>)"
    using assms(4,5) by (simp add: createConcurrentRoot_def invoke_def newRoot_def Let_def)
  have st: "renderStart rt ui opts s =
      (Suspended \<lparr> f_ui = ui, f_baseElement = resolvedBase opts, f_container = c,
                   f_hydrate = opt_hydrate opts, f_queries = opt_queries opts,
                   f_wrapper = opt_wrapper opts,
                   f_root = Root (length (createdRoots s)) c (ConcurrentRoot True) \<rparr>,
       s\<lparr>calls := calls s @
            [HydrateRoot c (strictModeIfNeeded s (wrapUiIfNeeded ui (opt_wrapper opts)))],
         createdRoots := createdRoots s @ [Root (length (createdRoots s)) c (ConcurrentRoot True)]\<rparr>)"
    unfolding renderStart_phases if_not_P[OF ok] rc
    using assms(2,3) by (simp add: startAt_def cr)
  show ?thesis
    using assms(4)
    by (simp add: render_start_resume st renderResume_def renderRoot_hydrate_calls)
qed

lemma render_remount_calls:
  assumes "store_inv s" and "(c, r) \<in> set (mountedRootEntries s)"
    and "opt_container opts = Some c"
    and "\<not> (opt_legacyRoot opts \<and> \<not> hasLegacyRender rt)" and "\<not> opt_hydrate opts"
  shows "calls (snd (render rt ui opts s)) =
           calls s @ [renderCall r (strictModeIfNeeded s (wrapUiIfNeeded ui (opt_wrapper opts)))]"
  using assms(5)
  by (simp add: render_reuses_recorded[OF assms(1,2,3,4)] renderRoot_render_calls)

text \<open>
  Claim C7. The element handed to the runtime is the UI wrapped in the wrapper component,
  if there is one, and that wrapped in the strict-mode marker, if strict mode is
  configured; with neither it is the UI itself. \<open>renderRoot\<close> hands exactly this element
  to the root: to its \<open>render\<close> when not hydrating, to the \<open>hydrate\<close> of a legacy root
  when hydrating (the \<open>hydrate\<close> of a concurrent root takes nothing: the element went to
  \<open>hydrateRoot\<close> when the root was constructed). So do \<open>rerender\<close>, and \<open>render\<close> on
  its three ways: into a container with a recorded root, into a new container, and into a
  new container for hydration.
\<close>

theorem decoration_order:
  "strictModeIfNeeded (s\<lparr>reactStrictMode := True\<rparr>) (wrapUiIfNeeded ui (Some w)) =
     CreateElement StrictMode Null [CreateElement (UserComponent w) Null [ui]] \<and>
   strictModeIfNeeded (s\<lparr>reactStrictMode := True\<rparr>) (wrapUiIfNeeded ui None) =
     CreateElement StrictMode Null [ui] \<and>
   strictModeIfNeeded (s\<lparr>reactStrictMode := False\<rparr>) (wrapUiIfNeeded ui (Some w)) =
     CreateElement (UserComponent w) Null [ui] \<and>
   strictModeIfNeeded (s\<lparr>reactStrictMode := False\<rparr>) (wrapUiIfNeeded ui None) = ui \<and>
   calls (snd (renderRoot rt ui b c False q (Some r) wrapper s)) =
     calls s @ [renderCall r (strictModeIfNeeded s (wrapUiIfNeeded ui wrapper))] \<and>
   calls (snd (renderRoot rt ui b c True q (Some (Root i c' LegacyRoot)) wrapper s)) =
     calls s @ [LegacyHydrate (strictModeIfNeeded s (wrapUiIfNeeded ui wrapper)) c'] \<and>
   calls (snd (renderRoot rt ui b c True q (Some (Root i c' (ConcurrentRoot h))) wrapper s)) =
     calls s \<and>
   calls (snd (createConcurrentRoot rt c True ui wrapper s)) =
     calls s @ [HydrateRoot c (strictModeIfNeeded s (wrapUiIfNeeded ui wrapper))] \<and>
   calls (snd (rerender rt bundle ui s)) =
     calls s @ [renderCall (rr_root bundle)
                  (strictModeIfNeeded s (wrapUiIfNeeded ui (rr_wrapper bundle)))] \<and>
   (\<forall>opts. store_inv s \<and> (c, r) \<in> set (mountedRootEntries s) \<and>
      opt_container opts = Some c \<and>
      \<not> (opt_legacyRoot opts \<and> \<not> hasLegacyRender rt) \<and> \<not> opt_hydrate opts \<longrightarrow>
      calls (snd (render rt ui opts s)) =
        calls s @ [renderCall r (strictModeIfNeeded s (wrapUiIfNeeded ui (opt_wrapper opts)))]) \<and>
   (\<forall>opts. opt_container opts = Some c \<and> c \<notin> mountedContainers s \<and>
      \<not> opt_legacyRoot opts \<and> \<not> opt_hydrate opts \<and>
      outcome rt (calls s) (CreateRoot c) = None \<longrightarrow>
      calls (snd (render rt ui opts s)) =
        calls s @ [CreateRoot c,
                   RootRender (length (createdRoots s))
                     (strictModeIfNeeded s (wrapUiIfNeeded ui (opt_wrapper opts)))]) \<and>
   (\<forall>opts. opt_container opts = Some c \<and> c \<notin> mountedContainers s \<and>
      \<not> opt_legacyRoot opts \<and> opt_hydrate opts \<and>
      outcome rt (calls s)
        (HydrateRoot c (strictModeIfNeeded s (wrapUiIfNeeded ui (opt_wrapper opts)))) = None \<longrightarrow>
      calls (snd (render rt ui opts s)) =
        calls s @ [HydrateRoot c (strictModeIfNeeded s (wrapUiIfNeeded ui (opt_wrapper opts)))])"
proof -
  have d1: "strictModeIfNeeded (s\<lparr>reactStrictMode := True\<rparr>) (wrapUiIfNeeded ui (Some w)) =
     CreateElement StrictMode Null [CreateElement (UserComponent w) Null [ui]]"
    and d2: "strictModeIfNeeded (s\<lparr>reactStrictMode := True\<rparr>) (wrapUiIfNeeded ui None) =
     CreateElement StrictMode Null [ui]"
    and d3: "strictModeIfNeeded (s\<lparr>reactStrictMode := False\<rparr>) (wrapUiIfNeeded ui (Some w)) =
     CreateElement (UserComponent w) Null [ui]"
    and d4: "strictModeIfNeeded (s\<lparr>reactStrictMode := False\<rparr>) (wrapUiIfNeeded ui None) = ui"
    by (simp_all add: strictModeIfNeeded_def wrapUiIfNeeded_def)
  have h: "calls (snd (createConcurrentRoot rt c True ui wrapper s)) =
     calls s @ [HydrateRoot c (strictModeIfNeeded s (wrapUiIfNeeded ui wrapper))]"
    by (simp add: createConcurrentRoot_def invoke_def newRoot_def Let_def split: option.splits)
  have rr: "calls (snd (rerender rt bundle ui s)) =
     calls s @ [renderCall (rr_root bundle)
                  (strictModeIfNeeded s (wrapUiIfNeeded ui (rr_wrapper bundle)))]"
    by (cases "rootImpl (rr_root bundle)")
       (auto simp: rerender_def renderRoot_def root_render_def invoke_def renderCall_def
          split: option.splits)
  have r1: "\<forall>opts. store_inv s \<and> (c, r) \<in> set (mountedRootEntries s) \<and>
      opt_container opts = Some c \<and>
      \<not> (opt_legacyRoot opts \<and> \<not> hasLegacyRender rt) \<and> \<not> opt_hydrate opts \<longrightarrow>
      calls (snd (render rt ui opts s)) =
        calls s @ [renderCall r (strictModeIfNeeded s (wrapUiIfNeeded ui (opt_wrapper opts)))]"
    by (intro allI impI, elim conjE) (rule render_remount_calls)
  have r2: "\<forall>opts. opt_container opts = Some c \<and> c \<notin> mountedContainers s \<and>
      \<not> opt_legacyRoot opts \<and> \<not> opt_hydrate opts \<and>
      outcome rt (calls s) (CreateRoot c) = None \<longrightarrow>
      calls (snd (render rt ui opts s)) =
        calls s @ [CreateRoot c,
                   RootRender (length (createdRoots s))
                     (strictModeIfNeeded s (wrapUiIfNeeded ui (opt_wrapper opts)))]"
    by (intro allI impI, elim conjE) (rule render_first_mount_calls)
  have r3: "\<forall>opts. opt_container opts = Some c \<and> c \<notin> mountedContainers s \<and>
      \<not> opt_legacyRoot opts \<and> opt_hydrate opts \<and>
      outcome rt (calls s)
        (HydrateRoot c (strictModeIfNeeded s (wrapUiIfNeeded ui (opt_wrapper opts)))) = None \<longrightarrow>
      calls (snd (render rt ui opts s)) =
        calls s @ [HydrateRoot c (strictModeIfNeeded s (wrapUiIfNeeded ui (opt_wrapper opts)))]"
    by (intro allI impI, elim conjE) (rule render_first_hydrate_calls)
  show ?thesis
    by (rule conjI[OF d1 conjI[OF d2 conjI[OF d3 conjI[OF d4
          conjI[OF renderRoot_render_calls conjI[OF renderRoot_hydrate_calls(1)
          conjI[OF renderRoot_hydrate_calls(2) conjI[OF h conjI[OF rr
          conjI[OF r1 conjI[OF r2 r3]]]]]]]]]]])
qed

theorem decoration_order_witness:
  "opt_container wrappedIntoDiv = Some 2 \<and> 2 \<notin> mountedContainers strictCallerDiv \<and>
   \<not> opt_legacyRoot wrappedIntoDiv \<and> \<not> opt_hydrate wrappedIntoDiv \<and>
   outcome quietRuntime (calls strictCallerDiv) (CreateRoot 2) = None \<and>
   calls (snd (render quietRuntime (Ui 0) wrappedIntoDiv strictCallerDiv)) =
     [CreateRoot 2,
      RootRender 0 (CreateElement StrictMode Null [CreateElement (UserComponent 5) Null [Ui 0]])]"
proof -
  have pre: "opt_container wrappedIntoDiv = Some 2 \<and> 2 \<notin> mountedContainers strictCallerDiv \<and>
      \<not> opt_legacyRoot wrappedIntoDiv \<and> \<not> opt_hydrate wrappedIntoDiv \<and>
      outcome quietRuntime (calls strictCallerDiv) (CreateRoot 2) = None"
    by (simp add: run_defs)
  note t = decoration_order[where s = strictCallerDiv and ui = "Ui 0" and rt = quietRuntime
      and c = 2]
  note r2 = t[THEN conjunct2, THEN conjunct2, THEN conjunct2, THEN conjunct2, THEN conjunct2, THEN conjunct2, THEN conjunct2, THEN conjunct2, THEN conjunct2, THEN conjunct2, THEN conjunct1]
  from r2[rule_format, OF pre]
  have "calls (snd (render quietRuntime (Ui 0) wrappedIntoDiv strictCallerDiv)) =
     [CreateRoot 2,
      RootRender 0 (CreateElement StrictMode Null [CreateElement (UserComponent 5) Null [Ui 0]])]"
    by (simp add: strictCallerDiv_def wrappedIntoDiv_def configure_def callerDiv_def
        createElement_def appendChild_def init_def defaults_def strictModeIfNeeded_def
        wrapUiIfNeeded_def)
  with pre show ?thesis by blast
qed

section \<open>What stays as it is until cleanup\<close>

lemma grows_refl: "grows s s"
  by (simp add: grows_def)

lemma grows_trans: "grows s s1 \<Longrightarrow> grows s1 s2 \<Longrightarrow> grows s s2"
  unfolding grows_def by (auto simp: subset_iff)

lemma grows_calls: "grows s (s\<lparr>calls := cs\<rparr>)"
  by (simp add: grows_def)

lemma resolveContainer_grows:
  "resolveContainer opts s = (c, s1) \<Longrightarrow> grows s s1"
  by (auto simp: resolveContainer_def grows_def split: option.splits)

lemma renderStart_grows:
  assumes "renderStart rt ui opts s = (p, s')"
  shows "grows s s'"
proof (cases "opt_legacyRoot opts \<and> \<not> hasLegacyRender rt")
  case True
  with assms show ?thesis by (auto simp: renderStart_phases grows_refl)
next
  case False
  obtain c s1 where rc: "resolveContainer opts s = (c, s1)"
    by (cases "resolveContainer opts s")
  from assms have sa: "startAt rt ui opts c s1 = (p, s')"
    unfolding renderStart_phases if_not_P[OF False] rc by simp
  from startAt_effect[OF sa] have "grows s1 s'"
    by (simp add: grows_def)
  with resolveContainer_grows[OF rc] show ?thesis by (rule grows_trans)
qed

lemma renderResume_grows:
  assumes "renderResume rt f s = (out, s')"
  shows "grows s s'"
  using renderResume_effect[OF assms] by (auto simp: grows_def)

lemma render_grows:
  assumes "render rt ui opts s = (out, s')"
  shows "grows s s'"
proof -
  obtain p s1 where rs: "renderStart rt ui opts s = (p, s1)"
    by (cases "renderStart rt ui opts s")
  note g1 = renderStart_grows[OF rs]
  show ?thesis
  proof (cases p)
    case (Done o1)
    with assms rs have "s' = s1" by (simp add: render_start_resume)
    with g1 show ?thesis by simp
  next
    case (Suspended f)
    with assms rs have "renderResume rt f s1 = (out, s')"
      by (simp add: render_start_resume)
    from g1 renderResume_grows[OF this] show ?thesis by (rule grows_trans)
  qed
qed

lemma step_grows:
  assumes "step rt x s = (out, s')" and "x \<noteq> Cleanup"
  shows "grows s s'"
proof (cases x)
  case (Render ui opts)
  obtain o1 s1 where r: "render rt ui opts s = (o1, s1)" by (cases "render rt ui opts s")
  from assms(1) Render r have "s' = s1" by (cases o1) simp_all
  with render_grows[OF r] show ?thesis by simp
next
  case (RenderHook cb options)
  show ?thesis
  proof (cases "opt_legacyRoot (renderOptions options) \<and> \<not> hasLegacyRender rt")
    case True
    with assms(1) RenderHook have "s' = s" by (simp add: renderHook_def)
    then show ?thesis by (simp add: grows_refl)
  next
    case False
    obtain o1 s1 where r: "render rt (CreateElement (TestComponent cb)
         (RenderCallbackProps (initialProps options)) []) (renderOptions options) s = (o1, s1)"
      by (cases "render rt (CreateElement (TestComponent cb)
         (RenderCallbackProps (initialProps options)) []) (renderOptions options) s")
    from assms(1) RenderHook False r have "s' = s1"
      by (cases o1) (simp_all add: renderHook_def)
    with render_grows[OF r] show ?thesis by simp
  qed
next
  case (Rerender b' ui)
  with assms(1) obtain cs where "s' = s\<lparr>calls := calls s @ cs\<rparr>"
    by (auto dest: rerender_frame)
  then show ?thesis by (simp add: grows_calls)
next
  case (HookRerender h p)
  with assms(1) obtain cs where "s' = s\<lparr>calls := calls s @ cs\<rparr>"
    by (auto simp: hookRerender_def dest: rerender_frame)
  then show ?thesis by (simp add: grows_calls)
next
  case (Unmount b')
  obtain o1 s1 where r: "unmount rt b' s = (o1, s1)" by (cases "unmount rt b' s")
  then obtain c where "s1 = s\<lparr>calls := calls s @ [c]\<rparr>"
    by (auto simp: unmount_def dest: root_unmount_frame)
  moreover from assms(1) Unmount r have "s' = s1" by (cases o1) simp_all
  ultimately show ?thesis by (simp add: grows_calls)
next
  case Cleanup
  with assms(2) show ?thesis by simp
next
  case (Configure v)
  with assms(1) have "s' = s\<lparr>reactStrictMode := v\<rparr>" by (simp add: configure_def)
  then show ?thesis by (simp add: grows_def)
qed

lemma fire_grows:
  assumes "fire rt ev sc = (r, sc')" and "ev \<noteq> Await Cleanup"
  shows "grows (st sc) (st sc')"
proof (cases ev)
  case (Await x)
  with assms(2) have nc: "x \<noteq> Cleanup" by simp
  obtain out s1 where stp: "step rt x (st sc) = (out, s1)" by (cases "step rt x (st sc)")
  with assms(1) Await have "st sc' = s1" by auto
  with step_grows[OF stp nc] show ?thesis by simp
next
  case (Issue ui opts)
  obtain p s1 where rs: "renderStart rt ui opts (st sc) = (p, s1)"
    by (cases "renderStart rt ui opts (st sc)")
  with assms(1) Issue have "st sc' = s1" by (cases p) auto
  with renderStart_grows[OF rs] show ?thesis by simp
next
  case (Continue i)
  show ?thesis
  proof (cases "i < length (inflight sc)")
    case False
    with assms(1) Continue show ?thesis by (auto simp: grows_refl)
  next
    case True
    obtain out s1 where rr: "renderResume rt (inflight sc ! i) (st sc) = (out, s1)"
      by (cases "renderResume rt (inflight sc ! i) (st sc)")
    with assms(1) Continue True have "st sc' = s1" by auto
    with renderResume_grows[OF rr] show ?thesis by simp
  qed
qed

lemma exec_grows:
  "exec rt evs sc = (rs, sc') \<Longrightarrow> Await Cleanup \<notin> set evs \<Longrightarrow> grows (st sc) (st sc')"
proof (induction evs arbitrary: sc rs sc')
  case Nil
  then show ?case by (simp add: grows_refl)
next
  case (Cons ev evs)
  obtain r sc1 where f: "fire rt ev sc = (r, sc1)" by (cases "fire rt ev sc")
  obtain rs1 sc2 where e: "exec rt evs sc1 = (rs1, sc2)" by (cases "exec rt evs sc1")
  from Cons.prems(2) have ne: "ev \<noteq> Await Cleanup" and nes: "Await Cleanup \<notin> set evs"
    by auto
  from Cons.prems(1) f e have "sc' = sc2" by simp
  with grows_trans[OF fire_grows[OF f ne] Cons.IH[OF e nes]] show ?case by simp
qed

text \<open>
  Claim C2, as the code has it. After \<open>cleanup\<close> resolves the store is empty, and a node
  has lost its parent exactly when it was a tracked container (one with an entry) whose
  parent was \<open>document.body\<close> when \<open>cleanup\<close> was called. So every tracked container under
  \<open>document.body\<close> is detached, the caller's as well as the adapter's own, and every node
  whose parent is not \<open>document.body\<close>, a caller's container among them, keeps its parent.
  A div that an awaited \<open>render\<close> created under \<open>document.body\<close> and recorded is a
  tracked child of \<open>document.body\<close> from then on, through every later event up to the
  \<open>cleanup\<close>, which detaches it.
\<close>

theorem cleanup_detaches:
  assumes "cleanup rt s = (Inr v, s')"
  shows "mountedContainers s' = {} \<and> mountedRootEntries s' = [] \<and>
         (\<forall>n. parentNode s' n =
            (if n \<in> fst ` set (mountedRootEntries s) \<and> parentNode s n = Some body
             then None else parentNode s n)) \<and>
         (\<forall>c. c \<in> fst ` set (mountedRootEntries s) \<and> parentNode s c = Some body \<longrightarrow>
            parentNode s' c = None) \<and>
         (\<forall>c. parentNode s c \<noteq> Some body \<longrightarrow> parentNode s' c = parentNode s c) \<and>
         (\<forall>rt0 ui opts s0 out s1 fs evs rs fs'.
            render rt0 ui opts s0 = (out, s1) \<and>
            \<not> (opt_legacyRoot opts \<and> \<not> hasLegacyRender rt0) \<and>
            opt_container opts = None \<and> opt_baseElement opts = None \<and>
            nextNode s0 \<in> fst ` set (mountedRootEntries s1) \<and>
            Await Cleanup \<notin> set evs \<and>
            exec rt0 evs \<lparr> st = s1, inflight = fs \<rparr> = (rs, \<lparr> st = s, inflight = fs' \<rparr>) \<longrightarrow>
            nextNode s0 \<in> fst ` set (mountedRootEntries s) \<and>
            parentNode s (nextNode s0) = Some body \<and>
            parentNode s' (nextNode s0) = None)"
proof -
  obtain outs s1 where r: "cleanupEntries rt (mountedRootEntries s) s = (outs, s1)"
    by (cases "cleanupEntries rt (mountedRootEntries s) s")
  from assms r have "firstError outs = None \<and>
      s' = s1\<lparr>mountedRootEntries := [], mountedContainers := {}\<rparr>"
    by (cases "firstError outs") (simp_all add: cleanup_def)
  then have f: "firstError outs = None"
    and s': "s' = s1\<lparr>mountedRootEntries := [], mountedContainers := {}\<rparr>" by simp_all
  from cleanupEntries_parent[OF r f] s'
  have par: "\<And>n. parentNode s' n =
            (if n \<in> fst ` set (mountedRootEntries s) \<and> parentNode s n = Some body
             then None else parentNode s n)"
    by simp
  have c1: "mountedContainers s' = {}" and c2: "mountedRootEntries s' = []"
    using s' by simp_all
  have c3: "\<forall>n. parentNode s' n =
            (if n \<in> fst ` set (mountedRootEntries s) \<and> parentNode s n = Some body
             then None else parentNode s n)"
    using par by blast
  have c4: "\<forall>c. c \<in> fst ` set (mountedRootEntries s) \<and> parentNode s c = Some body \<longrightarrow>
            parentNode s' c = None"
    using par by simp
  have c5: "\<forall>c. parentNode s c \<noteq> Some body \<longrightarrow> parentNode s' c = parentNode s c"
    using par by simp
  have c6: "\<forall>rt0 ui opts s0 out s1 fs evs rs fs'.
            render rt0 ui opts s0 = (out, s1) \<and>
            \<not> (opt_legacyRoot opts \<and> \<not> hasLegacyRender rt0) \<and>
            opt_container opts = None \<and> opt_baseElement opts = None \<and>
            nextNode s0 \<in> fst ` set (mountedRootEntries s1) \<and>
            Await Cleanup \<notin> set evs \<and>
            exec rt0 evs \<lparr> st = s1, inflight = fs \<rparr> = (rs, \<lparr> st = s, inflight = fs' \<rparr>) \<longrightarrow>
            nextNode s0 \<in> fst ` set (mountedRootEntries s) \<and>
            parentNode s (nextNode s0) = Some body \<and>
            parentNode s' (nextNode s0) = None"
  proof (intro allI impI)
    fix rt0 ui and opts :: render_options and s0 out s1 fs evs rs fs'
    assume h: "render rt0 ui opts s0 = (out, s1) \<and>
            \<not> (opt_legacyRoot opts \<and> \<not> hasLegacyRender rt0) \<and>
            opt_container opts = None \<and> opt_baseElement opts = None \<and>
            nextNode s0 \<in> fst ` set (mountedRootEntries s1) \<and>
            Await Cleanup \<notin> set evs \<and>
            exec rt0 evs \<lparr> st = s1, inflight = fs \<rparr> = (rs, \<lparr> st = s, inflight = fs' \<rparr>)"
    then have rn: "render rt0 ui opts s0 = (out, s1)"
      and ok: "\<not> (opt_legacyRoot opts \<and> \<not> hasLegacyRender rt0)"
      and ex: "exec rt0 evs \<lparr> st = s1, inflight = fs \<rparr> = (rs, \<lparr> st = s, inflight = fs' \<rparr>)"
      and nc: "Await Cleanup \<notin> set evs"
      and tr: "nextNode s0 \<in> fst ` set (mountedRootEntries s1)"
      by simp_all
    from render_shape[OF rn ok, of undefined] h
    have n1: "nextNode s1 = Suc (nextNode s0)"
      and p1: "parentNode s1 (nextNode s0) = Some body"
      by (auto simp: resolveContainer_def resolvedBase_def)
    from exec_grows[OF ex nc] have g: "grows s1 s" by simp
    from g n1 p1 have p: "parentNode s (nextNode s0) = Some body"
      by (simp add: grows_def)
    from g tr have t: "nextNode s0 \<in> fst ` set (mountedRootEntries s)"
      by (auto simp: grows_def)
    from par[of "nextNode s0"] p t
    show "nextNode s0 \<in> fst ` set (mountedRootEntries s) \<and>
            parentNode s (nextNode s0) = Some body \<and>
            parentNode s' (nextNode s0) = None"
      by simp
  qed
  show ?thesis
    by (rule conjI[OF c1 conjI[OF c2 conjI[OF c3 conjI[OF c4 conjI[OF c5 c6]]]]])
qed

lemma secondRender_exec:
  "exec quietRuntime secondRender \<lparr> st = afterDefaultRender, inflight = [] \<rparr> =
     ([Pending,
       Settled (Inr (RenderResult \<lparr> rr_container = 3, rr_baseElement = 1,
              rr_root = Root 1 3 (ConcurrentRoot False), rr_wrapper = None,
              rr_queries = None \<rparr>))],
      \<lparr> st = afterSecondRender, inflight = [] \<rparr>)"
  "afterSecondRender =
     \<lparr> mountedContainers = {2, 3},
       mountedRootEntries = [(2, Root 0 2 (ConcurrentRoot False)),
                             (3, Root 1 3 (ConcurrentRoot False))],
       createdRoots = [Root 0 2 (ConcurrentRoot False), Root 1 3 (ConcurrentRoot False)],
       parentNode = [1 \<mapsto> 0, 2 \<mapsto> 1, 3 \<mapsto> 1], nextNode = 4,
       calls = [CreateRoot 2, RootRender 0 (Ui 0), CreateRoot 3, RootRender 1 (Ui 1)],
       reactStrictMode = False \<rparr>"
  by (simp_all add: afterSecondRender_def secondRender_def afterDefaultRender_eq(2)
      renderStart_def renderResume_def renderRoot_def root_render_def invoke_def
      createConcurrentRoot_def newRoot_def createElement_def appendChild_def
      strictModeIfNeeded_def wrapUiIfNeeded_def quietRuntime_def defaults_def settled_def
      body_def Let_def insert_commute)

lemma cleanup_afterSecondRender:
  "cleanup quietRuntime afterSecondRender =
     (Inr (), \<lparr> mountedContainers = {}, mountedRootEntries = [],
       createdRoots = [Root 0 2 (ConcurrentRoot False), Root 1 3 (ConcurrentRoot False)],
       parentNode = [1 \<mapsto> 0, 2 \<mapsto> 1, 3 \<mapsto> 1](2 := None, 3 := None), nextNode = 4,
       calls = [CreateRoot 2, RootRender 0 (Ui 0), CreateRoot 3, RootRender 1 (Ui 1),
                RootUnmount 0, RootUnmount 1],
       reactStrictMode = False \<rparr>)"
  by (simp add: secondRender_exec(2) cleanup_def cleanupEntry_def root_unmount_def
      invoke_def removeChild_def quietRuntime_def body_def)

theorem cleanup_detaches_witness:
  "render quietRuntime (Ui 0) defaults init = (fst (render quietRuntime (Ui 0) defaults init),
     afterDefaultRender) \<and>
   fst (cleanup quietRuntime afterSecondRender) = Inr () \<and>
   mountedContainers (snd (cleanup quietRuntime afterSecondRender)) = {} \<and>
   mountedRootEntries (snd (cleanup quietRuntime afterSecondRender)) = [] \<and>
   nextNode init = 2 \<and>
   2 \<in> fst ` set (mountedRootEntries afterSecondRender) \<and>
   parentNode afterSecondRender 2 = Some body \<and>
   parentNode (snd (cleanup quietRuntime afterSecondRender)) 2 = None \<and>
   parentNode (snd (cleanup quietRuntime afterSecondRender)) 3 = None \<and>
   parentNode (snd (cleanup quietRuntime afterSecondRender)) body = Some documentElement"
proof -
  obtain s' where c: "cleanup quietRuntime afterSecondRender = (Inr (), s')"
    using cleanup_afterSecondRender by simp
  note t = cleanup_detaches[OF c]
  note t1 = t[THEN conjunct1]
  note t2 = t[THEN conjunct2, THEN conjunct1]
  note t3 = t[THEN conjunct2, THEN conjunct2, THEN conjunct1]
  note t6 = t[THEN conjunct2, THEN conjunct2, THEN conjunct2, THEN conjunct2, THEN conjunct2]
  have n: "nextNode init = 2" by (simp add: init_def)
  have pre: "render quietRuntime (Ui 0) defaults init =
       (Inr \<lparr> rr_container = 2, rr_baseElement = 1, rr_root = Root 0 2 (ConcurrentRoot False),
            rr_wrapper = None, rr_queries = None \<rparr>, afterDefaultRender) \<and>
      \<not> (opt_legacyRoot defaults \<and> \<not> hasLegacyRender quietRuntime) \<and>
      opt_container defaults = None \<and> opt_baseElement defaults = None \<and>
      nextNode init \<in> fst ` set (mountedRootEntries afterDefaultRender) \<and>
      Await Cleanup \<notin> set secondRender \<and>
      exec quietRuntime secondRender \<lparr> st = afterDefaultRender, inflight = [] \<rparr> =
        ([Pending,
          Settled (Inr (RenderResult \<lparr> rr_container = 3, rr_baseElement = 1,
              rr_root = Root 1 3 (ConcurrentRoot False), rr_wrapper = None,
              rr_queries = None \<rparr>))],
         \<lparr> st = afterSecondRender, inflight = [] \<rparr>)"
    using afterDefaultRender_eq(1) secondRender_exec(1)
    by (simp add: n afterDefaultRender_eq(2) defaults_def quietRuntime_def secondRender_def)
  from t6[rule_format, OF pre] n
  have a: "2 \<in> fst ` set (mountedRootEntries afterSecondRender)"
    and b: "parentNode afterSecondRender 2 = Some body"
    and d: "parentNode s' 2 = None"
    by simp_all
  from t3[rule_format, of 3] have e: "parentNode s' 3 = None"
    by (simp add: secondRender_exec(2) body_def)
  from t3[rule_format, of body]
  have f: "parentNode s' body = Some documentElement"
    by (simp add: secondRender_exec(2) body_def documentElement_def)
  have r: "render quietRuntime (Ui 0) defaults init =
     (fst (render quietRuntime (Ui 0) defaults init), afterDefaultRender)"
    by (simp add: afterDefaultRender_eq(1))
  from r t1 t2 n a b d e f show ?thesis by (simp add: c)
qed

text \<open>
  What \<open>cleanup\<close> does not reach: a div that \<open>render\<close> appended to \<open>document.body\<close>
  before the creation of its root threw has no entry, and stays where it is.
\<close>

lemma untracked_div_stays:
  "fst (render failingCreateRoot (Ui 0) defaults init) = Inl (RuntimeError 9) \<and>
   mountedRootEntries (snd (render failingCreateRoot (Ui 0) defaults init)) = [] \<and>
   parentNode (snd (render failingCreateRoot (Ui 0) defaults init)) 2 = Some body \<and>
   fst (cleanup failingCreateRoot (snd (render failingCreateRoot (Ui 0) defaults init)))
     = Inr () \<and>
   parentNode (snd (cleanup failingCreateRoot
     (snd (render failingCreateRoot (Ui 0) defaults init)))) 2 = Some body"
  by (simp add: run_defs)

end
